theory Spec2Isabelle
  imports Complex_Main "HOL-Library.Word" "HOL-Library.Sublist"
    "HOL-Library.Char_ord" "HOL-Library.List_Lexorder"
begin

section \<open>Floating-point values\<close>

text \<open>
  The script computes with NumPy \<open>float64\<close> scalars and arrays and stores its results in
  \<open>Float32Col\<close> columns. A value is a finite number, an infinity or NaN. The two zeros of
  IEEE 754 are identified: the only division whose result depends on the sign of a zero divisor
  is the one by \<open>sum(weight_tel)\<close>, and that sum starts from the integer \<open>0\<close>, so a zero
  total is the positive zero.
\<close>

datatype npfloat = Fin real | PInf | NInf | NaN

text \<open>Rounding to the nearest integer, ties to the even one (the IEEE default mode).\<close>

definition rne :: "real \<Rightarrow> int" where
  "rne y = (let f = \<lfloor>y\<rfloor>; d = y - of_int f in
     if d < 1/2 then f else if 1/2 < d then f + 1 else if even f then f else f + 1)"

text \<open>
  Rounding a real result into a binary format with \<open>p\<close> significant bits and exponents from
  \<open>emin\<close> to \<open>emax\<close>: below \<open>2 ^ emin\<close> the spacing stays that of the smallest normal
  numbers (gradual underflow), and a result beyond the largest finite number is an infinity.
\<close>

definition ieee_round :: "nat \<Rightarrow> int \<Rightarrow> int \<Rightarrow> real \<Rightarrow> npfloat" where
  "ieee_round p emin emax x =
     (if x = 0 then Fin 0
      else let e = max \<lfloor>log 2 \<bar>x\<bar>\<rfloor> emin;
               q = 2 powr (of_int (e - int p + 1));
               r = of_int (rne (x / q)) * q
           in if 2 powr (of_int (emax + 1)) \<le> \<bar>r\<bar>
              then (if 0 < x then PInf else NInf)
              else Fin r)"

definition binary64 :: "real \<Rightarrow> npfloat" where
  "binary64 = ieee_round 53 (- 1022) 1023"

definition binary32 :: "real \<Rightarrow> npfloat" where
  "binary32 = ieee_round 24 (- 126) 127"

text \<open>The values of \<open>float64\<close>: the finite numbers that rounding leaves unchanged, infinities, NaN.\<close>

definition is_float64 :: "npfloat \<Rightarrow> bool" where
  "is_float64 x = (case x of Fin a \<Rightarrow> binary64 a = Fin a | _ \<Rightarrow> True)"

fun fsgn :: "npfloat \<Rightarrow> real" where
  "fsgn (Fin a) = sgn a"
| "fsgn PInf = 1"
| "fsgn NInf = - 1"
| "fsgn NaN = 0"

definition inf_of_sign :: "real \<Rightarrow> npfloat" where
  "inf_of_sign s = (if 0 < s then PInf else NInf)"

text \<open>\<open>x * y\<close> on \<open>float64\<close>: zero times infinity is NaN.\<close>

definition fmul :: "npfloat \<Rightarrow> npfloat \<Rightarrow> npfloat" where
  "fmul x y =
     (case (x, y) of
        (Fin a, Fin b) \<Rightarrow> binary64 (a * b)
      | _ \<Rightarrow> if x = NaN \<or> y = NaN \<or> x = Fin 0 \<or> y = Fin 0 then NaN
             else inf_of_sign (fsgn x * fsgn y))"

text \<open>\<open>x + y\<close> on \<open>float64\<close>: the sum of opposite infinities is NaN.\<close>

definition fadd :: "npfloat \<Rightarrow> npfloat \<Rightarrow> npfloat" where
  "fadd x y =
     (case (x, y) of
        (Fin a, Fin b) \<Rightarrow> binary64 (a + b)
      | _ \<Rightarrow> if x = NaN \<or> y = NaN \<or> (x = PInf \<and> y = NInf) \<or> (x = NInf \<and> y = PInf) then NaN
             else if x = PInf \<or> y = PInf then PInf else NInf)"

text \<open>
  \<open>x / y\<close> on a \<open>float64\<close> scalar. NumPy raises nothing on a zero divisor: it warns, and the
  result is NaN for \<open>0 / 0\<close> and an infinity otherwise.
\<close>

definition fdiv :: "npfloat \<Rightarrow> npfloat \<Rightarrow> npfloat" where
  "fdiv x y =
     (case (x, y) of
        (Fin a, Fin b) \<Rightarrow>
          if b = 0 then (if a = 0 then NaN else inf_of_sign a) else binary64 (a / b)
      | (Fin a, _) \<Rightarrow> if y = NaN then NaN else Fin 0
      | (_, Fin b) \<Rightarrow> if x = NaN then NaN else inf_of_sign (fsgn x * (if b < 0 then - 1 else 1))
      | _ \<Rightarrow> NaN)"

text \<open>Storing a value into a \<open>Float32Col\<close> field converts it to single precision.\<close>

fun to_float32 :: "npfloat \<Rightarrow> npfloat" where
  "to_float32 (Fin a) = binary32 a"
| "to_float32 x = x"

text \<open>
  \<open>np.sum\<close> of a \<open>float64\<close> array is NumPy's pairwise summation, added to the initial value
  0. Fewer than eight elements are added from left to right. Up to 128 elements are added in
  eight accumulators, which start as the first eight elements and take the following elements
  eight at a time; the accumulators are then added in pairs, and the elements left over (fewer
  than eight) are added one by one. A longer array is cut in two, the first part a multiple of
  eight long, and the sums of the parts are added.
\<close>

fun add_blocks :: "npfloat list \<Rightarrow> npfloat list \<Rightarrow> npfloat list \<times> npfloat list" where
  "add_blocks r (a0 # a1 # a2 # a3 # a4 # a5 # a6 # a7 # rest) =
     add_blocks (map2 fadd r [a0, a1, a2, a3, a4, a5, a6, a7]) rest"
| "add_blocks r rest = (r, rest)"

definition combine8 :: "npfloat list \<Rightarrow> npfloat" where
  "combine8 r = fadd (fadd (fadd (r ! 0) (r ! 1)) (fadd (r ! 2) (r ! 3)))
                     (fadd (fadd (r ! 4) (r ! 5)) (fadd (r ! 6) (r ! 7)))"

definition block_sum :: "npfloat list \<Rightarrow> npfloat" where
  "block_sum xs = (case add_blocks (take 8 xs) (drop 8 xs) of
                     (r, rest) \<Rightarrow> foldl fadd (combine8 r) rest)"

definition half8 :: "nat \<Rightarrow> nat" where
  "half8 n = n div 2 - (n div 2) mod 8"

function pairwise_sum :: "npfloat list \<Rightarrow> npfloat" where
  "pairwise_sum xs =
     (if length xs < 8 then foldl fadd (Fin 0) xs
      else if length xs \<le> 128 then block_sum xs
      else fadd (pairwise_sum (take (half8 (length xs)) xs))
                (pairwise_sum (drop (half8 (length xs)) xs)))"
  by pat_completeness auto
termination
  by (relation "measure length") (auto simp: half8_def)

declare pairwise_sum.simps [simp del]

definition np_sum :: "npfloat list \<Rightarrow> npfloat" where
  "np_sum xs = fadd (Fin 0) (pairwise_sum xs)"

text \<open>The builtin \<open>sum\<close> starts from the integer 0 and adds from left to right.\<close>

definition py_sum :: "npfloat list \<Rightarrow> npfloat" where
  "py_sum xs = foldl fadd (Fin 0) xs"

text \<open>
  The fusion of the script, written twice in \<open>main\<close>:
  \<open>np.sum(weight_tel * value_tel) / sum(weight_tel)\<close>.
\<close>

definition fusion :: "npfloat list \<Rightarrow> npfloat list \<Rightarrow> npfloat" where
  "fusion weight_tel value_tel = fdiv (np_sum (map2 fmul weight_tel value_tel)) (py_sum weight_tel)"

section \<open>The output row\<close>

text \<open>The table description \<open>RecoEvent\<close>, with the type of each column.\<close>

record RecoEvent =
  obs_id :: "16 word"
  event_id :: "32 word"
  NTels_trig :: "16 word"
  NTels_reco :: "16 word"
  NTels_reco_lst :: "16 word"
  NTels_reco_mst :: "16 word"
  NTels_reco_sst :: "16 word"
  mc_energy :: npfloat
  reco_energy :: npfloat
  reco_alt :: npfloat
  reco_az :: npfloat
  offset :: npfloat
  xi :: npfloat
  ErrEstPos :: npfloat
  ErrEstDir :: npfloat
  gammaness :: npfloat
  success :: bool
  score :: npfloat
  h_max :: npfloat
  reco_core_x :: npfloat
  reco_core_y :: npfloat
  mc_core_x :: npfloat
  mc_core_y :: npfloat

text \<open>The \<open>dflt\<close> of each column.\<close>

definition RecoEvent_dflt :: RecoEvent where
  "RecoEvent_dflt =
     \<lparr>obs_id = - 1, event_id = - 1, NTels_trig = 0, NTels_reco = 0, NTels_reco_lst = 0,
      NTels_reco_mst = 0, NTels_reco_sst = 0, mc_energy = NaN, reco_energy = NaN,
      reco_alt = NaN, reco_az = NaN, offset = NaN, xi = NaN, ErrEstPos = NaN, ErrEstDir = NaN,
      gammaness = NaN, success = False, score = NaN, h_max = NaN, reco_core_x = NaN,
      reco_core_y = NaN, mc_core_x = NaN, mc_core_y = NaN\<rparr>"

text \<open>Storing a Python integer into an \<open>Int16Col\<close> or \<open>Int32Col\<close> field keeps its low bits.\<close>

definition to_int16 :: "int \<Rightarrow> 16 word" where
  "to_int16 i = word_of_int i"

definition to_int32 :: "int \<Rightarrow> 32 word" where
  "to_int32 i = word_of_int i"

section \<open>Events as the preparer yields them\<close>

datatype error = KeyError | AttributeError | UnboundLocalError | SystemExit int

text \<open>Hillas moments of one telescope (\<open>length_m\<close> is the source's \<open>length\<close>).\<close>

record moments =
  intensity :: npfloat
  width :: npfloat
  length_m :: npfloat
  skewness :: npfloat
  kurtosis :: npfloat

text \<open>
  What the loop body reads of \<open>event\<close>: \<open>event.r1\<close>, \<open>event.mc\<close>,
  \<open>event.mcheader.run_array_direction\<close>, \<open>event.dl0.tels_with_data\<close> and the camera of each
  telescope, \<open>event.inst.subarray.tel[tel_id].camera.cam_id\<close>.
\<close>

record event_data =
  r1_obs_id :: int
  r1_event_id :: int
  shower_energy :: npfloat
  shower_az :: npfloat
  shower_alt :: npfloat
  shower_core_x :: npfloat
  shower_core_y :: npfloat
  run_array_az :: npfloat
  run_array_alt :: npfloat
  tels_with_data :: "nat list"
  tel_cam_id :: "nat \<rightharpoonup> string"

record shower_fit =
  fit_az :: npfloat
  fit_alt :: npfloat
  fit_h_max :: npfloat
  fit_core_x :: npfloat
  fit_core_y :: npfloat

record tel_counts =
  n_LST :: int
  n_MST :: int
  n_SST :: int

text \<open>
  The tuple \<open>prepare_event\<close> yields, without the four components the loop body never reads.
  \<open>hillas_dict\<close> is a dictionary or \<open>None\<close>; its items are in iteration order.
  \<open>reco_result\<close> is the fitted shower, or \<open>None\<close> when the event comes without one.
\<close>

record prepared =
  event :: event_data
  hillas_dict :: "(nat \<times> moments) list option"
  n_tels :: tel_counts
  reco_result :: "shower_fit option"
  impact_dict :: "nat \<rightharpoonup> npfloat"

text \<open>
  What the script takes from outside itself: library functions on floats, the two model banks
  (\<open>model_dict\<close> of the loaded regressor and classifier, each model a function of the feature
  vector), the events of each input file, the file system seen through \<open>glob\<close>, and the
  interrupt, whose handler sets \<open>signal_handler.stop\<close>: \<open>stop_from = Some k\<close> when the
  flag reads true from the \<open>k\<close>-th inspection on, \<open>None\<close> when it is never set.
\<close>

record env =
  np_log10 :: "npfloat \<Rightarrow> npfloat"
  angular_separation :: "npfloat \<Rightarrow> npfloat \<Rightarrow> npfloat \<Rightarrow> npfloat \<Rightarrow> npfloat"
  to_deg :: "npfloat \<Rightarrow> npfloat"
  to_m :: "npfloat \<Rightarrow> npfloat"
  to_TeV :: "npfloat \<Rightarrow> npfloat"
  regressor_model_dict :: "string \<rightharpoonup> (npfloat list \<Rightarrow> npfloat)"
  classifier_model_dict :: "string \<rightharpoonup> (npfloat list \<Rightarrow> npfloat)"
  prepare_event :: "string \<Rightarrow> prepared list"
  glob :: "string \<Rightarrow> string list"
  stop_from :: "nat option"

section \<open>The body of the event loop\<close>

definition lookup :: "('k \<rightharpoonup> 'v) \<Rightarrow> 'k \<Rightarrow> error + 'v" where
  "lookup d k = (case d k of None \<Rightarrow> Inl KeyError | Some v \<Rightarrow> Inr v)"

text \<open>The feature vector of the energy regressor for one telescope.\<close>

definition energy_features :: "env \<Rightarrow> moments \<Rightarrow> npfloat \<Rightarrow> npfloat \<Rightarrow> npfloat list" where
  "energy_features E m impact hmax =
     [np_log10 E (intensity m), np_log10 E impact, width m, length_m m, hmax]"

text \<open>
  The first loop over \<open>hillas_dict.keys()\<close>: the arrays \<open>energy_tel\<close> and \<open>weight_tel\<close>, or
  the \<open>KeyError\<close> of the first failing lookup.
\<close>

fun estimate_energy ::
  "env \<Rightarrow> prepared \<Rightarrow> npfloat \<Rightarrow> (nat \<times> moments) list \<Rightarrow> error + (npfloat list \<times> npfloat list)" where
  "estimate_energy E p hmax [] = Inr ([], [])"
| "estimate_energy E p hmax ((tel_id, m) # rest) =
     (case lookup (tel_cam_id (event p)) tel_id of
        Inl err \<Rightarrow> Inl err
      | Inr cam_id \<Rightarrow>
     (case lookup (regressor_model_dict E) cam_id of
        Inl err \<Rightarrow> Inl err
      | Inr model \<Rightarrow>
     (case lookup (impact_dict p) tel_id of
        Inl err \<Rightarrow> Inl err
      | Inr impact \<Rightarrow>
     (case estimate_energy E p hmax rest of
        Inl err \<Rightarrow> Inl err
      | Inr (energy_tel, weight_tel) \<Rightarrow>
          Inr (model (energy_features E m impact hmax) # energy_tel,
               intensity m # weight_tel)))))"

text \<open>The feature vector of the classifier for one telescope, from the fused energy.\<close>

definition score_features :: "env \<Rightarrow> npfloat \<Rightarrow> moments \<Rightarrow> npfloat \<Rightarrow> npfloat list" where
  "score_features E reco_e m hmax =
     [np_log10 E reco_e, width m, length_m m, skewness m, kurtosis m, hmax]"

text \<open>The second loop: \<open>score_tel\<close> and \<open>weight_tel\<close>.\<close>

fun estimate_score ::
  "env \<Rightarrow> prepared \<Rightarrow> npfloat \<Rightarrow> npfloat \<Rightarrow> (nat \<times> moments) list
     \<Rightarrow> error + (npfloat list \<times> npfloat list)" where
  "estimate_score E p reco_e hmax [] = Inr ([], [])"
| "estimate_score E p reco_e hmax ((tel_id, m) # rest) =
     (case lookup (tel_cam_id (event p)) tel_id of
        Inl err \<Rightarrow> Inl err
      | Inr cam_id \<Rightarrow>
     (case lookup (classifier_model_dict E) cam_id of
        Inl err \<Rightarrow> Inl err
      | Inr model \<Rightarrow>
     (case estimate_score E p reco_e hmax rest of
        Inl err \<Rightarrow> Inl err
      | Inr (score_tel, weight_tel) \<Rightarrow>
          Inr (model (score_features E reco_e m hmax) # score_tel,
               intensity m # weight_tel))))"

text \<open>
  The assignments to the row when \<open>hillas_dict\<close> is a dictionary, in the order of the source;
  every float is converted to the column's single precision.
\<close>

definition fill_success ::
  "env \<Rightarrow> prepared \<Rightarrow> shower_fit \<Rightarrow> nat \<Rightarrow> npfloat \<Rightarrow> npfloat \<Rightarrow> npfloat \<Rightarrow> npfloat
     \<Rightarrow> RecoEvent \<Rightarrow> RecoEvent" where
  "fill_success E p fit n_reco reco_e sc xi_v offset_v row =
     row\<lparr>NTels_trig := to_int16 (int (length (tels_with_data (event p)))),
         NTels_reco := to_int16 (int n_reco),
         NTels_reco_lst := to_int16 (n_LST (n_tels p)),
         NTels_reco_mst := to_int16 (n_MST (n_tels p)),
         NTels_reco_sst := to_int16 (n_SST (n_tels p)),
         reco_energy := to_float32 reco_e,
         reco_alt := to_float32 (to_deg E (fit_alt fit)),
         reco_az := to_float32 (to_deg E (fit_az fit)),
         offset := to_float32 (to_deg E offset_v),
         xi := to_float32 (to_deg E xi_v),
         h_max := to_float32 (to_m E (fit_h_max fit)),
         reco_core_x := to_float32 (to_m E (fit_core_x fit)),
         reco_core_y := to_float32 (to_m E (fit_core_y fit)),
         mc_core_x := to_float32 (to_m E (shower_core_x (event p))),
         mc_core_y := to_float32 (to_m E (shower_core_y (event p))),
         score := to_float32 sc,
         success := True,
         ErrEstPos := NaN,
         ErrEstDir := NaN\<rparr>"

text \<open>
  Lines 146 to 239: the angular quantities, then either the two estimates and the full row, or
  only \<open>success = False\<close>. The angular quantities and \<open>h_max\<close> are read from \<open>reco_result\<close>
  for every event, before \<open>hillas_dict\<close> is tested: without a fit, line 152 raises
  \<open>AttributeError\<close>. A failing dictionary lookup leaves before any field is assigned.
\<close>

definition reconstruct :: "env \<Rightarrow> prepared \<Rightarrow> RecoEvent \<Rightarrow> error + RecoEvent" where
  "reconstruct E p row =
     (case reco_result p of
        None \<Rightarrow> Inl AttributeError
      | Some fit \<Rightarrow>
     (let xi_v = angular_separation E (shower_az (event p)) (shower_alt (event p))
                   (fit_az fit) (fit_alt fit);
          offset_v = angular_separation E (run_array_az (event p)) (run_array_alt (event p))
                   (fit_az fit) (fit_alt fit);
          hmax = fit_h_max fit
      in case hillas_dict p of
           None \<Rightarrow> Inr (row\<lparr>success := False\<rparr>)
         | Some hdict \<Rightarrow>
             (case estimate_energy E p hmax hdict of
                Inl err \<Rightarrow> Inl err
              | Inr (energy_tel, weight_tel) \<Rightarrow>
                  let reco_e = fusion weight_tel energy_tel
                  in (case estimate_score E p reco_e hmax hdict of
                        Inl err \<Rightarrow> Inl err
                      | Inr (score_tel, weight_tel2) \<Rightarrow>
                          Inr (fill_success E p fit (length hdict) reco_e
                                 (fusion weight_tel2 score_tel) xi_v offset_v row)))))"

text \<open>Lines 242 to 244: the fields written for every event.\<close>

definition save_basic :: "env \<Rightarrow> prepared \<Rightarrow> RecoEvent \<Rightarrow> RecoEvent" where
  "save_basic E p row =
     row\<lparr>mc_energy := to_float32 (to_TeV E (shower_energy (event p))),
         event_id := to_int32 (r1_event_id (event p)),
         obs_id := to_int16 (r1_obs_id (event p))\<rparr>"

text \<open>The row of an event, from the defaults the row object holds when the event arrives.\<close>

definition row_of :: "env \<Rightarrow> prepared \<Rightarrow> error + RecoEvent" where
  "row_of E p = (case reconstruct E p RecoEvent_dflt of
                   Inl err \<Rightarrow> Inl err
                 | Inr row \<Rightarrow> Inr (save_basic E p row))"

section \<open>The table and the loops\<close>

text \<open>
  What the run does to the outside, in order: an event taken from the preparer, a flush of the
  table, a row appended, and the two places where \<open>signal_handler.stop\<close> is read, with the
  value read.
\<close>

datatype action =
    Yield prepared
  | Flush
  | Append RecoEvent
  | InspectEvent bool
  | InspectFile bool

text \<open>
  The table \<open>reco_table\<close> with its row object \<open>reco_event\<close>: the fields of the row being
  filled, the rows appended and not yet written, and the rows written to storage. \<open>inspections\<close>
  counts the reads of the stop flag so far, \<open>stdout\<close> holds the lines printed.
\<close>

record state =
  wrec :: RecoEvent
  iobuf :: "RecoEvent list"
  rows_on_disk :: "RecoEvent list"
  inspections :: nat
  trace :: "action list"
  stdout :: "string list"

definition init_state :: state where
  "init_state = \<lparr>wrec = RecoEvent_dflt, iobuf = [], rows_on_disk = [], inspections = 0,
                  trace = [], stdout = []\<rparr>"

text \<open>\<open>reco_table.flush()\<close> writes the buffered rows out.\<close>

definition flush :: "state \<Rightarrow> state" where
  "flush st = st\<lparr>rows_on_disk := rows_on_disk st @ iobuf st, iobuf := [],
                 trace := trace st @ [Flush]\<rparr>"

text \<open>
  \<open>reco_event.append()\<close> puts the row into the buffer and sets the fields of the row object
  back to the column defaults.
\<close>

definition append_row :: "state \<Rightarrow> state" where
  "append_row st = st\<lparr>iobuf := iobuf st @ [wrec st], wrec := RecoEvent_dflt,
                      trace := trace st @ [Append (wrec st)]\<rparr>"

text \<open>Lines 146 to 247 for one event: fill the row, flush, append.\<close>

definition loop_body :: "env \<Rightarrow> prepared \<Rightarrow> state \<Rightarrow> error + state" where
  "loop_body E p st =
     (case reconstruct E p (wrec st) of
        Inl err \<Rightarrow> Inl err
      | Inr row \<Rightarrow> Inr (append_row (flush (st\<lparr>wrec := save_basic E p row\<rparr>))))"

definition stop_flag :: "env \<Rightarrow> nat \<Rightarrow> bool" where
  "stop_flag E n = (case stop_from E of None \<Rightarrow> False | Some k \<Rightarrow> k \<le> n)"

definition inspect_event :: "env \<Rightarrow> state \<Rightarrow> bool \<times> state" where
  "inspect_event E st =
     (stop_flag E (inspections st),
      st\<lparr>inspections := Suc (inspections st),
         trace := trace st @ [InspectEvent (stop_flag E (inspections st))]\<rparr>)"

definition inspect_file :: "env \<Rightarrow> state \<Rightarrow> bool \<times> state" where
  "inspect_file E st =
     (stop_flag E (inspections st),
      st\<lparr>inspections := Suc (inspections st),
         trace := trace st @ [InspectFile (stop_flag E (inspections st))]\<rparr>)"

text \<open>How a part of the run ends: it returns, or an exception leaves it.\<close>

datatype outcome = Returned state | Raised error state

text \<open>The inner loop, over the events of one file.\<close>

fun event_loop :: "env \<Rightarrow> prepared list \<Rightarrow> state \<Rightarrow> outcome" where
  "event_loop E [] st = Returned st"
| "event_loop E (p # ps) st =
     (let st0 = st\<lparr>trace := trace st @ [Yield p]\<rparr>
      in case loop_body E p st0 of
           Inl err \<Rightarrow> Raised err st0
         | Inr st1 \<Rightarrow>
             (case inspect_event E st1 of
                (stop, st2) \<Rightarrow> if stop then Returned st2 else event_loop E ps st2))"

text \<open>The outer loop, over the input files.\<close>

fun file_loop :: "env \<Rightarrow> string list \<Rightarrow> state \<Rightarrow> outcome" where
  "file_loop E [] st = Returned st"
| "file_loop E (filename # rest) st =
     (case event_loop E (prepare_event E filename) st of
        Raised err st1 \<Rightarrow> Raised err st1
      | Returned st1 \<Rightarrow>
          (case inspect_file E st1 of
             (stop, st2) \<Rightarrow> if stop then Returned st2 else file_loop E rest st2))"

text \<open>Lines 134 to 255: both loops and the last flush.\<close>

definition run_loops :: "env \<Rightarrow> string list \<Rightarrow> state \<Rightarrow> outcome" where
  "run_loops E filenamelist st =
     (case file_loop E filenamelist st of
        Raised err st1 \<Rightarrow> Raised err st1
      | Returned st1 \<Rightarrow> Returned (flush st1))"

section \<open>The start of main\<close>

record args =
  indir :: string
  infile_list :: "string list option"

text \<open>
  Lines 51 to 55. \<open>filenamelist\<close> is bound only inside the \<open>if\<close>, which an absent and an
  empty \<open>infile_list\<close> both skip: \<open>None\<close> stands for the unbound name.
\<close>

definition find_files :: "env \<Rightarrow> args \<Rightarrow> string list option" where
  "find_files E a =
     (case infile_list a of
        None \<Rightarrow> None
      | Some fs \<Rightarrow>
          if fs = [] then None
          else Some (sort (concat (map (\<lambda>f. glob E (indir a @ ''/'' @ f)) fs))))"

text \<open>
  \<open>main\<close>: the input files, the check of line 57, the loops, and the last line printed. The
  models are loaded and the table is opened between the check and the loops; the two cut-flow
  reports before \<open>Job done!\<close> are printed by code outside the script.
\<close>

definition main :: "env \<Rightarrow> args \<Rightarrow> outcome" where
  "main E a =
     (case find_files E a of
        None \<Rightarrow> Raised UnboundLocalError init_state
      | Some filenamelist \<Rightarrow>
          if filenamelist = []
          then Raised (SystemExit (- 1))
                 (init_state\<lparr>stdout := [''no files found; check indir: '' @ indir a]\<rparr>)
          else (case run_loops E filenamelist init_state of
                  Raised err st \<Rightarrow> Raised err st
                | Returned st \<Rightarrow> Returned (st\<lparr>stdout := stdout st @ [''Job done!'']\<rparr>)))"

text \<open>The exit status of the process: that of \<open>exit\<close>, or 1 after an uncaught exception.\<close>

fun exit_status :: "outcome \<Rightarrow> int" where
  "exit_status (Returned st) = 0"
| "exit_status (Raised (SystemExit c) st) = c mod 256"
| "exit_status (Raised err st) = 1"

section \<open>Reading a trace\<close>

text \<open>The events taken, the rows appended and the values read from the stop flag, in order.\<close>

fun yielded :: "action list \<Rightarrow> prepared list" where
  "yielded [] = []"
| "yielded (Yield p # t) = p # yielded t"
| "yielded (a # t) = yielded t"

fun appended :: "action list \<Rightarrow> RecoEvent list" where
  "appended [] = []"
| "appended (Append r # t) = r # appended t"
| "appended (a # t) = appended t"

fun inspected :: "action list \<Rightarrow> bool list" where
  "inspected [] = []"
| "inspected (InspectEvent s # t) = s # inspected t"
| "inspected (InspectFile s # t) = s # inspected t"
| "inspected (a # t) = inspected t"

text \<open>
  Which action may come directly after which: a flush after an event is taken, the append after
  the flush, the inner inspection after the append, the outer inspection after the inner loop
  has ended (by an inspection, or at once for a file without events), a new event only after
  an inspection that read false, and the last flush after the outer loop.
\<close>

fun may_follow :: "action \<Rightarrow> action \<Rightarrow> bool" where
  "may_follow (InspectEvent s) (Yield p) = (\<not> s)"
| "may_follow (InspectFile s) (Yield p) = (\<not> s)"
| "may_follow (Yield p) Flush = True"
| "may_follow (InspectFile s) Flush = True"
| "may_follow Flush (Append r) = True"
| "may_follow (Append r) (InspectEvent s) = True"
| "may_follow (InspectEvent s') (InspectFile s) = (s \<or> \<not> s')"
| "may_follow (InspectFile s') (InspectFile s) = (\<not> s')"
| "may_follow a b = False"

text \<open>The trace from the first inspection that read true.\<close>

definition is_stop :: "action \<Rightarrow> bool" where
  "is_stop a = (a = InspectEvent True \<or> a = InspectFile True)"

definition after_stop :: "action list \<Rightarrow> action list" where
  "after_stop t = dropWhile (\<lambda>a. \<not> is_stop a) t"

section \<open>Example inputs\<close>

text \<open>
  Concrete inputs on which the results below are evaluated: a base-10 logarithm rounded to
  \<open>float64\<close>, quantities already in the units of the table, one camera type with constant
  models, and events with no geometry, with an empty dictionary and with one telescope.
\<close>

definition np_log10_ieee :: "npfloat \<Rightarrow> npfloat" where
  "np_log10_ieee x =
     (case x of
        Fin a \<Rightarrow> if 0 < a then binary64 (log 10 a) else if a = 0 then NInf else NaN
      | PInf \<Rightarrow> PInf
      | _ \<Rightarrow> NaN)"

definition ex_event :: event_data where
  "ex_event = \<lparr>r1_obs_id = 1, r1_event_id = 7, shower_energy = Fin 0, shower_az = Fin 0,
                shower_alt = Fin 0, shower_core_x = Fin 0, shower_core_y = Fin 0,
                run_array_az = Fin 0, run_array_alt = Fin 0, tels_with_data = [1],
                tel_cam_id = [1 \<mapsto> ''LSTCam'']\<rparr>"

definition ex_fit :: shower_fit where
  "ex_fit = \<lparr>fit_az = Fin 0, fit_alt = Fin 0, fit_h_max = Fin 0, fit_core_x = Fin 0,
              fit_core_y = Fin 0\<rparr>"

definition ex_moments :: moments where
  "ex_moments = \<lparr>intensity = Fin 0, width = Fin 0, length_m = Fin 0, skewness = Fin 0,
                  kurtosis = Fin 0\<rparr>"

definition ex_no_geometry :: prepared where
  "ex_no_geometry = \<lparr>event = ex_event, hillas_dict = None,
                      n_tels = \<lparr>n_LST = 0, n_MST = 0, n_SST = 0\<rparr>,
                      reco_result = Some ex_fit, impact_dict = Map.empty\<rparr>"


definition ex_no_tels :: prepared where
  "ex_no_tels = ex_no_geometry\<lparr>hillas_dict := Some []\<rparr>"

definition ex_one_tel :: prepared where
  "ex_one_tel = ex_no_geometry\<lparr>hillas_dict := Some [(1, ex_moments)],
                                n_tels := \<lparr>n_LST = 1, n_MST = 0, n_SST = 0\<rparr>,
                                impact_dict := [1 \<mapsto> Fin 0]\<rparr>"

definition ex_env :: env where
  "ex_env = \<lparr>np_log10 = np_log10_ieee, angular_separation = (\<lambda>az1 alt1 az2 alt2. Fin 0),
              to_deg = (\<lambda>x. x), to_m = (\<lambda>x. x), to_TeV = (\<lambda>x. x),
              regressor_model_dict = [''LSTCam'' \<mapsto> (\<lambda>features. Fin 0)],
              classifier_model_dict = [''LSTCam'' \<mapsto> (\<lambda>features. Fin 0)],
              prepare_event = (\<lambda>filename. [ex_no_geometry, ex_one_tel]),
              glob = (\<lambda>pattern. [pattern]),
              stop_from = None\<rparr>"

definition ex_env_no_models :: env where
  "ex_env_no_models = ex_env\<lparr>regressor_model_dict := Map.empty, classifier_model_dict := Map.empty,
                              prepare_event := (\<lambda>filename. [ex_one_tel])\<rparr>"


definition ex_env_abort :: env where
  "ex_env_abort = ex_env_no_models\<lparr>prepare_event := (\<lambda>filename. [ex_no_geometry, ex_one_tel])\<rparr>"

definition ex_env_abort_stop :: env where
  "ex_env_abort_stop = ex_env_abort\<lparr>stop_from := Some 1\<rparr>"

definition ex_args :: args where
  "ex_args = \<lparr>indir = ''data'', infile_list = Some [''gamma_run1.simtel.gz'']\<rparr>"

definition ex_row :: RecoEvent where
  "ex_row = RecoEvent_dflt\<lparr>mc_energy := Fin 0, event_id := 7, obs_id := 1\<rparr>"

definition ex_event_b :: prepared where
  "ex_event_b = ex_no_geometry\<lparr>event := ex_event\<lparr>r1_event_id := 8\<rparr>\<rparr>"

definition ex_env_files :: env where
  "ex_env_files = ex_env\<lparr>prepare_event :=
     (\<lambda>filename. if filename = ''data/a.simtel'' then [ex_no_geometry] else [ex_event_b])\<rparr>"

definition ex_args_two :: args where
  "ex_args_two = \<lparr>indir = ''data'', infile_list = Some [''b.simtel'', ''a.simtel'']\<rparr>"

definition ex_env_two :: env where
  "ex_env_two = ex_env\<lparr>prepare_event := (\<lambda>filename. [ex_no_geometry, ex_event_b])\<rparr>"

definition ex_env_stop :: env where
  "ex_env_stop = ex_env_two\<lparr>stop_from := Some 0\<rparr>"

text \<open>The \<open>float64\<close> nearest to 0.1, and an event whose one telescope has intensity 3.\<close>

definition ex_tenth :: real where
  "ex_tenth = 3602879701896397 / 36028797018963968"

definition ex_moments3 :: moments where
  "ex_moments3 = ex_moments\<lparr>intensity := Fin 3\<rparr>"

definition ex_single :: prepared where
  "ex_single = ex_one_tel\<lparr>hillas_dict := Some [(1, ex_moments3)]\<rparr>"

text \<open>
  Two telescopes of intensity 1 and widths 1 and 2, with a regressor that returns the width
  and a classifier that returns its first feature.
\<close>

definition ex_pair :: prepared where
  "ex_pair = ex_one_tel\<lparr>event := ex_event\<lparr>tels_with_data := [1, 2],
                                             tel_cam_id := [1 \<mapsto> ''LSTCam'', 2 \<mapsto> ''LSTCam'']\<rparr>,
                       hillas_dict := Some [(1, ex_moments\<lparr>intensity := Fin 1, width := Fin 1\<rparr>),
                                            (2, ex_moments\<lparr>intensity := Fin 1, width := Fin 2\<rparr>)],
                       n_tels := \<lparr>n_LST = 2, n_MST = 0, n_SST = 0\<rparr>,
                       impact_dict := [1 \<mapsto> Fin 0, 2 \<mapsto> Fin 0]\<rparr>"

definition ex_env_width :: env where
  "ex_env_width = ex_env\<lparr>regressor_model_dict := [''LSTCam'' \<mapsto> (\<lambda>features. features ! 2)],
                          classifier_model_dict := [''LSTCam'' \<mapsto> (\<lambda>features. features ! 0)]\<rparr>"

definition ex_env_tenth :: env where
  "ex_env_tenth = ex_env\<lparr>regressor_model_dict := [''LSTCam'' \<mapsto> (\<lambda>features. Fin ex_tenth)],
                          classifier_model_dict := [''LSTCam'' \<mapsto> (\<lambda>features. Fin ex_tenth)]\<rparr>"

section \<open>Stored identifiers\<close>

lemma binary32_0: "binary32 0 = Fin 0"
  by (simp add: binary32_def ieee_round_def)

lemma binary64_0: "binary64 0 = Fin 0"
  by (simp add: binary64_def ieee_round_def)

lemma sint_to_int16_mod: "sint (to_int16 i) mod 2 ^ 16 = i mod 2 ^ 16"
proof -
  have "take_bit 16 (signed_take_bit 15 i) = take_bit 16 i"
    by (simp add: take_bit_signed_take_bit)
  then show ?thesis by (simp add: to_int16_def sint_sbintrunc' take_bit_eq_mod)
qed

lemma sint_to_int32_mod: "sint (to_int32 i) mod 2 ^ 32 = i mod 2 ^ 32"
proof -
  have "take_bit 32 (signed_take_bit 31 i) = take_bit 32 i"
    by (simp add: take_bit_signed_take_bit)
  then show ?thesis by (simp add: to_int32_def sint_sbintrunc' take_bit_eq_mod)
qed

lemma sint_to_int16_eq_iff: "sint (to_int16 i) = i \<longleftrightarrow> - 32768 \<le> i \<and> i \<le> 32767"
  by (auto simp: to_int16_def sint_sbintrunc' signed_take_bit_int_eq_self_iff)

lemma sint_to_int32_eq_iff: "sint (to_int32 i) = i \<longleftrightarrow> - 2147483648 \<le> i \<and> i \<le> 2147483647"
  by (auto simp: to_int32_def sint_sbintrunc' signed_take_bit_int_eq_self_iff)

lemma row_of_ids:
  "row_of E p = Inr r \<Longrightarrow>
     obs_id r = to_int16 (r1_obs_id (event p)) \<and> event_id r = to_int32 (r1_event_id (event p))"
  by (auto simp: row_of_def save_basic_def split: sum.splits)

text \<open>
  C10: the row of an event holds \<open>obs_id\<close> in a signed 16-bit column and \<open>event_id\<close> in a
  signed 32-bit column. An identifier outside the range of its column is stored as a different
  number, which agrees with it modulo \<open>2 ^ 16\<close> (modulo \<open>2 ^ 32\<close> for \<open>event_id\<close>).
\<close>

theorem stored_ids_wrap:
  assumes "row_of E p = Inr r"
  shows "(r1_obs_id (event p) < - 32768 \<or> 32767 < r1_obs_id (event p)
            \<longrightarrow> sint (obs_id r) \<noteq> r1_obs_id (event p))
         \<and> sint (obs_id r) mod 2 ^ 16 = r1_obs_id (event p) mod 2 ^ 16
         \<and> (r1_event_id (event p) < - 2147483648 \<or> 2147483647 < r1_event_id (event p)
            \<longrightarrow> sint (event_id r) \<noteq> r1_event_id (event p))
         \<and> sint (event_id r) mod 2 ^ 32 = r1_event_id (event p) mod 2 ^ 32"
  using row_of_ids [OF assms]
    sint_to_int16_mod [of "r1_obs_id (event p)"] sint_to_int32_mod [of "r1_event_id (event p)"]
    sint_to_int16_eq_iff [of "r1_obs_id (event p)"] sint_to_int32_eq_iff [of "r1_event_id (event p)"]
  by auto

text \<open>An event with \<open>obs_id = 70000\<close> and \<open>event_id = 2 ^ 32 + 5\<close> is stored as 4464 and 5.\<close>

theorem stored_ids_wrap_witness:
  "row_of ex_env (ex_no_geometry\<lparr>event := ex_event\<lparr>r1_obs_id := 70000, r1_event_id := 2 ^ 32 + 5\<rparr>\<rparr>)
     = Inr (RecoEvent_dflt\<lparr>mc_energy := Fin 0, event_id := 5, obs_id := 4464\<rparr>)
   \<and> sint (4464 :: 16 word) \<noteq> 70000 \<and> sint (5 :: 32 word) \<noteq> 2 ^ 32 + 5"
  using stored_ids_wrap [of ex_env
      "ex_no_geometry\<lparr>event := ex_event\<lparr>r1_obs_id := 70000, r1_event_id := 2 ^ 32 + 5\<rparr>\<rparr>"
      "RecoEvent_dflt\<lparr>mc_energy := Fin 0, event_id := 5, obs_id := 4464\<rparr>"]
  by (simp add: row_of_def reconstruct_def save_basic_def ex_no_geometry_def ex_event_def
      ex_env_def RecoEvent_dflt_def binary32_0 to_int16_def to_int32_def)


section \<open>Events without geometry\<close>

lemma row_of_no_geometry:
  "hillas_dict p = None \<Longrightarrow> reco_result p = Some fit \<Longrightarrow>
     row_of E p = Inr (RecoEvent_dflt\<lparr>success := False,
        mc_energy := to_float32 (to_TeV E (shower_energy (event p))),
        event_id := to_int32 (r1_event_id (event p)),
        obs_id := to_int16 (r1_obs_id (event p))\<rparr>)"
  by (simp add: row_of_def reconstruct_def save_basic_def)

lemma row_of_no_fit: "reco_result p = None \<Longrightarrow> row_of E p = Inl AttributeError"
  by (simp add: row_of_def reconstruct_def)

lemma loop_body_no_fit: "reco_result p = None \<Longrightarrow> loop_body E p st = Inl AttributeError"
  by (simp add: loop_body_def reconstruct_def)

lemma loop_body_row_of:
  "wrec st = RecoEvent_dflt \<Longrightarrow>
     loop_body E p st =
       (case row_of E p of
          Inl err \<Rightarrow> Inl err
        | Inr r \<Rightarrow> Inr (st\<lparr>wrec := RecoEvent_dflt, iobuf := [r],
                          rows_on_disk := rows_on_disk st @ iobuf st,
                          trace := trace st @ [Flush, Append r]\<rparr>))"
  by (auto simp: loop_body_def row_of_def flush_def append_row_def split: sum.splits)




section \<open>No input files\<close>

text \<open>When a list of names is given and none matches, line 57 reports it and exits with -1.\<close>

lemma main_no_match:
  assumes "infile_list a = Some fs" "fs \<noteq> []" "\<forall>f \<in> set fs. glob E (indir a @ ''/'' @ f) = []"
  shows "main E a = Raised (SystemExit (- 1))
           (init_state\<lparr>stdout := [''no files found; check indir: '' @ indir a]\<rparr>)"
    and "exit_status (main E a) = 255"
proof -
  have "concat (map (\<lambda>f. glob E (indir a @ ''/'' @ f)) fs) = []"
    using assms(3) by simp
  then have "find_files E a = Some []"
    using assms(1,2) by (simp add: find_files_def del: concat_eq_Nil_conv)
  then show "main E a = Raised (SystemExit (- 1))
           (init_state\<lparr>stdout := [''no files found; check indir: '' @ indir a]\<rparr>)"
    by (simp add: main_def)
  then show "exit_status (main E a) = 255" by simp
qed

text \<open>
  C9: without a list of input files the run should report that no file was found and exit with
  a non-zero status. With \<open>infile_list\<close> absent or empty, line 57 reads a name that was
  never bound: the run ends in \<open>UnboundLocalError\<close> before anything is processed, with the
  exit status 1 of an uncaught exception, and the report of line 58 is not printed.
\<close>

theorem main_without_infile_list:
  "main E \<lparr>indir = d, infile_list = None\<rparr> = Raised UnboundLocalError init_state
   \<and> main E \<lparr>indir = d, infile_list = Some []\<rparr> = Raised UnboundLocalError init_state
   \<and> stdout init_state = [] \<and> trace init_state = []
   \<and> exit_status (Raised UnboundLocalError init_state) = 1"
  by (simp add: main_def find_files_def init_state_def)

section \<open>A camera type without a model\<close>

lemma lookup_error: "lookup d k = Inl err \<Longrightarrow> err = KeyError"
  by (auto simp: lookup_def split: option.splits)

lemma lookup_Inr: "lookup d k = Inr v \<longleftrightarrow> d k = Some v"
  by (auto simp: lookup_def split: option.splits)

lemma estimate_energy_error: "estimate_energy E p hmax hdict = Inl err \<Longrightarrow> err = KeyError"
  by (induction hdict arbitrary: err)
     (auto split: sum.splits prod.splits dest: lookup_error)

lemma estimate_score_error: "estimate_score E p e hmax hdict = Inl err \<Longrightarrow> err = KeyError"
  by (induction hdict arbitrary: err)
     (auto split: sum.splits prod.splits dest: lookup_error)

lemma estimate_energy_weights:
  "estimate_energy E p hmax hdict = Inr (energy_tel, weight_tel) \<Longrightarrow>
     weight_tel = map (\<lambda>(t, m). intensity m) hdict \<and> length energy_tel = length hdict"
  by (induction hdict arbitrary: energy_tel weight_tel)
     (auto split: sum.splits prod.splits)

lemma estimate_score_weights:
  "estimate_score E p e hmax hdict = Inr (score_tel, weight_tel) \<Longrightarrow>
     weight_tel = map (\<lambda>(t, m). intensity m) hdict \<and> length score_tel = length hdict"
  by (induction hdict arbitrary: score_tel weight_tel)
     (auto split: sum.splits prod.splits)

lemma estimate_energy_missing_model:
  assumes "(t, m) \<in> set hdict" "tel_cam_id (event p) t = Some c" "regressor_model_dict E c = None"
  shows "estimate_energy E p hmax hdict = Inl KeyError"
  using assms
proof (induction hdict)
  case Nil
  then show ?case by simp
next
  case (Cons a rest)
  obtain t' m' where a: "a = (t', m')" by (cases a)
  show ?case
  proof (cases "(t, m) = a")
    case True
    with Cons.prems a show ?thesis by (simp add: lookup_def)
  next
    case False
    with Cons have "estimate_energy E p hmax rest = Inl KeyError" by simp
    with a show ?thesis
      by (auto split: sum.splits dest: lookup_error)
  qed
qed

lemma estimate_score_missing_model:
  assumes "(t, m) \<in> set hdict" "tel_cam_id (event p) t = Some c" "classifier_model_dict E c = None"
  shows "estimate_score E p e hmax hdict = Inl KeyError"
  using assms
proof (induction hdict)
  case Nil
  then show ?case by simp
next
  case (Cons a rest)
  obtain t' m' where a: "a = (t', m')" by (cases a)
  show ?case
  proof (cases "(t, m) = a")
    case True
    with Cons.prems a show ?thesis by (simp add: lookup_def)
  next
    case False
    with Cons have "estimate_score E p e hmax rest = Inl KeyError" by simp
    with a show ?thesis
      by (auto split: sum.splits dest: lookup_error)
  qed
qed

lemma reconstruct_missing_model:
  assumes "hillas_dict p = Some hdict" "(t, m) \<in> set hdict" "tel_cam_id (event p) t = Some c"
    "regressor_model_dict E c = None \<or> classifier_model_dict E c = None"
    and fit: "reco_result p = Some fit"
  shows "reconstruct E p row = Inl KeyError"
proof (cases "estimate_energy E p (fit_h_max fit) hdict")
  case (Inl err)
  then have "err = KeyError" by (rule estimate_energy_error)
  with Inl assms(1) fit show ?thesis by (simp add: reconstruct_def)
next
  case (Inr ew)
  obtain es ws where ew: "ew = (es, ws)" by (cases ew)
  have "regressor_model_dict E c \<noteq> None"
  proof
    assume "regressor_model_dict E c = None"
    with assms(2,3) have "estimate_energy E p (fit_h_max fit) hdict = Inl KeyError"
      by (rule estimate_energy_missing_model)
    with Inr show False by simp
  qed
  with assms(4) have "classifier_model_dict E c = None" by simp
  then have "estimate_score E p (fusion ws es) (fit_h_max fit) hdict = Inl KeyError"
    using assms(2,3) by (rule estimate_score_missing_model [rotated 2])
  with Inr ew assms(1) fit show ?thesis by (simp add: reconstruct_def Let_def)
qed

text \<open>
  C2, as the code has it: when a telescope of the event has a camera type with no regressor or
  no classifier in the model bank, the lookup raises \<open>KeyError\<close>. The telescope is not left
  out of the fusion: the event gets no row, and the exception leaves the event loop. (An event
  that carries no fit has failed before the lookup, with \<open>AttributeError\<close>, and gets no row
  either.)
\<close>

theorem missing_model_aborts:
  assumes "hillas_dict p = Some hdict" "(t, m) \<in> set hdict" "tel_cam_id (event p) t = Some c"
    "regressor_model_dict E c = None \<or> classifier_model_dict E c = None"
  shows "(reco_result p \<noteq> None \<longrightarrow>
            row_of E p = Inl KeyError
            \<and> loop_body E p st = Inl KeyError
            \<and> event_loop E (p # ps) st = Raised KeyError (st\<lparr>trace := trace st @ [Yield p]\<rparr>))
         \<and> (reco_result p = None \<longrightarrow>
            row_of E p = Inl AttributeError
            \<and> loop_body E p st = Inl AttributeError
            \<and> event_loop E (p # ps) st
                = Raised AttributeError (st\<lparr>trace := trace st @ [Yield p]\<rparr>))"
proof (rule conjI; rule impI)
  assume "reco_result p \<noteq> None"
  then obtain fit where "reco_result p = Some fit" by auto
  from reconstruct_missing_model [OF assms this]
  show "row_of E p = Inl KeyError
            \<and> loop_body E p st = Inl KeyError
            \<and> event_loop E (p # ps) st = Raised KeyError (st\<lparr>trace := trace st @ [Yield p]\<rparr>)"
    by (simp add: row_of_def loop_body_def)
next
  assume "reco_result p = None"
  then show "row_of E p = Inl AttributeError
            \<and> loop_body E p st = Inl AttributeError
            \<and> event_loop E (p # ps) st
                = Raised AttributeError (st\<lparr>trace := trace st @ [Yield p]\<rparr>)"
    by (simp add: row_of_no_fit loop_body_no_fit)
qed

text \<open>One telescope with an \<open>LSTCam\<close> camera and an empty model bank.\<close>

theorem missing_model_aborts_witness:
  "hillas_dict ex_one_tel = Some [(1, ex_moments)] \<and> (1, ex_moments) \<in> set [(1, ex_moments)]
   \<and> tel_cam_id (event ex_one_tel) 1 = Some ''LSTCam''
   \<and> regressor_model_dict ex_env_no_models ''LSTCam'' = None
   \<and> reco_result ex_one_tel \<noteq> None
   \<and> row_of ex_env_no_models ex_one_tel = Inl KeyError
   \<and> event_loop ex_env_no_models [ex_one_tel] init_state
       = Raised KeyError (init_state\<lparr>trace := [Yield ex_one_tel]\<rparr>)"
  using missing_model_aborts [of ex_one_tel "[(1, ex_moments)]" 1 ex_moments "''LSTCam''"
      ex_env_no_models init_state "[]"]
  by (simp add: ex_one_tel_def ex_no_geometry_def ex_event_def ex_env_no_models_def ex_env_def
      init_state_def)

text \<open>
  C2 as stated fails: a run over one file whose only event has a telescope without a model
  ends in \<open>KeyError\<close>, with no row appended.
\<close>

theorem missing_model_counterexample:
  "main ex_env_no_models ex_args = Raised KeyError (init_state\<lparr>trace := [Yield ex_one_tel]\<rparr>)"
proof -
  have "reconstruct ex_env_no_models ex_one_tel RecoEvent_dflt = Inl KeyError"
    by (simp add: reconstruct_def ex_one_tel_def ex_no_geometry_def ex_event_def
        ex_env_no_models_def ex_env_def lookup_def)
  then have "event_loop ex_env_no_models [ex_one_tel] init_state
               = Raised KeyError (init_state\<lparr>trace := [Yield ex_one_tel]\<rparr>)"
    by (simp add: loop_body_def init_state_def)
  moreover have "find_files ex_env_no_models ex_args = Some [''data/gamma_run1.simtel.gz'']"
    by (simp add: find_files_def ex_args_def ex_env_no_models_def ex_env_def)
  moreover have "prepare_event ex_env_no_models ''data/gamma_run1.simtel.gz'' = [ex_one_tel]"
    by (simp add: ex_env_no_models_def)
  ultimately show ?thesis
    by (simp add: main_def run_loops_def)
qed

section \<open>Fusion without weight\<close>

lemma fadd_zero_nan: "x \<in> {Fin 0, NaN} \<Longrightarrow> y \<in> {Fin 0, NaN} \<Longrightarrow> fadd x y \<in> {Fin 0, NaN}"
  by (auto simp: fadd_def binary64_0)

lemma foldl_fadd_zero_nan:
  "acc \<in> {Fin 0, NaN} \<Longrightarrow> set xs \<subseteq> {Fin 0, NaN} \<Longrightarrow> foldl fadd acc xs \<in> {Fin 0, NaN}"
proof (induction xs arbitrary: acc)
  case Nil
  then show ?case by simp
next
  case (Cons x xs)
  from Cons.prems have "fadd acc x \<in> {Fin 0, NaN}"
    by (intro fadd_zero_nan) auto
  with Cons show ?case by simp
qed

lemma pairwise_sum_short: "length xs < 8 \<Longrightarrow> pairwise_sum xs = foldl fadd (Fin 0) xs"
  by (simp add: pairwise_sum.simps [of xs])

lemma map2_fadd_zero_nan:
  assumes "set xs \<subseteq> {Fin 0, NaN}" "set ys \<subseteq> {Fin 0, NaN}"
  shows "set (map2 fadd xs ys) \<subseteq> {Fin 0, NaN}"
proof
  fix z assume "z \<in> set (map2 fadd xs ys)"
  then obtain x y where xy: "(x, y) \<in> set (zip xs ys)" and z: "z = fadd x y" by auto
  from xy have "x \<in> set xs" "y \<in> set ys"
    by (auto dest: set_zip_leftD set_zip_rightD)
  with assms have "x \<in> {Fin 0, NaN}" "y \<in> {Fin 0, NaN}" by auto
  then show "z \<in> {Fin 0, NaN}" unfolding z by (rule fadd_zero_nan)
qed

lemma add_blocks_zero_nan:
  assumes "add_blocks r rest = (r', rest')" "set r \<subseteq> {Fin 0, NaN}" "set rest \<subseteq> {Fin 0, NaN}"
    "length r = 8"
  shows "set r' \<subseteq> {Fin 0, NaN} \<and> set rest' \<subseteq> {Fin 0, NaN} \<and> length r' = 8"
  using assms
proof (induction r rest arbitrary: r' rest' rule: add_blocks.induct)
  case (1 r a0 a1 a2 a3 a4 a5 a6 a7 rest)
  let ?blk = "[a0, a1, a2, a3, a4, a5, a6, a7]"
  have "set (map2 fadd r ?blk) \<subseteq> {Fin 0, NaN}"
    using "1.prems"(2,3) by (intro map2_fadd_zero_nan) auto
  moreover have "set rest \<subseteq> {Fin 0, NaN}" using "1.prems"(3) by auto
  moreover have "length (map2 fadd r ?blk) = 8" using "1.prems"(4) by simp
  moreover have "add_blocks (map2 fadd r ?blk) rest = (r', rest')"
    using "1.prems"(1) by simp
  ultimately show ?case by (intro "1.IH") auto
qed auto

lemma combine8_zero_nan:
  assumes "set r \<subseteq> {Fin 0, NaN}" "length r = 8"
  shows "combine8 r \<in> {Fin 0, NaN}"
proof -
  have "r ! i \<in> {Fin 0, NaN}" if "i < 8" for i
  proof -
    have "r ! i \<in> set r" using assms(2) that by simp
    with assms(1) show ?thesis by blast
  qed
  then show ?thesis
    unfolding combine8_def by (intro fadd_zero_nan) simp_all
qed

lemma block_sum_zero_nan:
  assumes "set xs \<subseteq> {Fin 0, NaN}" "8 \<le> length xs"
  shows "block_sum xs \<in> {Fin 0, NaN}"
proof -
  obtain r rest where ab: "add_blocks (take 8 xs) (drop 8 xs) = (r, rest)"
    by (cases "add_blocks (take 8 xs) (drop 8 xs)")
  have "set (take 8 xs) \<subseteq> {Fin 0, NaN}" "set (drop 8 xs) \<subseteq> {Fin 0, NaN}"
    using assms(1) set_take_subset [of 8 xs] set_drop_subset [of 8 xs] by blast+
  moreover have "length (take 8 xs) = 8" using assms(2) by simp
  ultimately have rr: "set r \<subseteq> {Fin 0, NaN} \<and> set rest \<subseteq> {Fin 0, NaN} \<and> length r = 8"
    by (intro add_blocks_zero_nan [OF ab])
  then have "combine8 r \<in> {Fin 0, NaN}" by (intro combine8_zero_nan) simp_all
  with rr have "foldl fadd (combine8 r) rest \<in> {Fin 0, NaN}"
    by (intro foldl_fadd_zero_nan) simp_all
  then show ?thesis
    by (simp only: block_sum_def ab prod.case)
qed

lemma pairwise_sum_zero_nan:
  "set xs \<subseteq> {Fin 0, NaN} \<Longrightarrow> pairwise_sum xs \<in> {Fin 0, NaN}"
proof (induction xs rule: pairwise_sum.induct)
  case (1 xs)
  show ?case
  proof (cases "length xs < 8")
    case True
    have "foldl fadd (Fin 0) xs \<in> {Fin 0, NaN}"
      using "1.prems" by (intro foldl_fadd_zero_nan) simp_all
    with True show ?thesis
      by (simp only: pairwise_sum.simps [of xs] if_True)
  next
    case small: False
    show ?thesis
    proof (cases "length xs \<le> 128")
      case True
      have "block_sum xs \<in> {Fin 0, NaN}"
        using "1.prems" small by (intro block_sum_zero_nan) simp_all
      with small True show ?thesis
        by (simp only: pairwise_sum.simps [of xs] if_True if_False)
    next
      case False
      have "set (take (half8 (length xs)) xs) \<subseteq> {Fin 0, NaN}"
        "set (drop (half8 (length xs)) xs) \<subseteq> {Fin 0, NaN}"
        using "1.prems" set_take_subset [of _ xs] set_drop_subset [of _ xs] by blast+
      with "1.IH" small False
      have "pairwise_sum (take (half8 (length xs)) xs) \<in> {Fin 0, NaN}"
        "pairwise_sum (drop (half8 (length xs)) xs) \<in> {Fin 0, NaN}"
        by auto
      then have "fadd (pairwise_sum (take (half8 (length xs)) xs))
                      (pairwise_sum (drop (half8 (length xs)) xs)) \<in> {Fin 0, NaN}"
        by (rule fadd_zero_nan)
      with small False show ?thesis
        by (simp only: pairwise_sum.simps [of xs] if_False)
    qed
  qed
qed

lemma np_sum_zero_nan: "set xs \<subseteq> {Fin 0, NaN} \<Longrightarrow> np_sum xs \<in> {Fin 0, NaN}"
  unfolding np_sum_def by (intro fadd_zero_nan pairwise_sum_zero_nan) simp_all

lemma fmul_zero: "fmul (Fin 0) v \<in> {Fin 0, NaN}"
  by (cases v) (simp_all add: fmul_def binary64_0)

lemma products_zero_weights:
  "\<forall>w \<in> set ws. w = Fin 0 \<Longrightarrow> set (map2 fmul ws vs) \<subseteq> {Fin 0, NaN}"
proof (induction ws arbitrary: vs)
  case Nil
  then show ?case by simp
next
  case (Cons w ws)
  show ?case
  proof (cases vs)
    case Nil
    then show ?thesis by simp
  next
    case (Cons v vs')
    with Cons.prems Cons.IH [of vs'] fmul_zero [of v] show ?thesis by auto
  qed
qed

lemma py_sum_zero_weights: "\<forall>w \<in> set ws. w = Fin 0 \<Longrightarrow> py_sum ws = Fin 0"
  unfolding py_sum_def
  by (induction ws) (simp_all add: fadd_def binary64_0)

lemma fusion_zero_weights:
  assumes "\<forall>w \<in> set ws. w = Fin 0"
  shows "fusion ws vs = NaN"
proof -
  have "np_sum (map2 fmul ws vs) \<in> {Fin 0, NaN}"
    using products_zero_weights [OF assms, of vs] by (rule np_sum_zero_nan)
  then show ?thesis
    by (auto simp: fusion_def py_sum_zero_weights [OF assms] fdiv_def)
qed

lemma row_of_success:
  assumes "hillas_dict p = Some hdict" "row_of E p = Inr r"
  shows "\<exists>energy_tel score_tel.
           length energy_tel = length hdict \<and> length score_tel = length hdict
           \<and> success r
           \<and> reco_energy r = to_float32 (fusion (map (\<lambda>(t, m). intensity m) hdict) energy_tel)
           \<and> score r = to_float32 (fusion (map (\<lambda>(t, m). intensity m) hdict) score_tel)"
proof -
  from assms(2) obtain fit where fit: "reco_result p = Some fit"
    by (cases "reco_result p") (auto simp: row_of_def reconstruct_def)
  let ?hmax = "fit_h_max fit"
  from assms fit obtain es ws where e: "estimate_energy E p ?hmax hdict = Inr (es, ws)"
    by (cases "estimate_energy E p ?hmax hdict")
       (auto simp: row_of_def reconstruct_def)
  with assms fit obtain ss ws2 where
    s: "estimate_score E p (fusion ws es) ?hmax hdict = Inr (ss, ws2)"
    by (cases "estimate_score E p (fusion ws es) ?hmax hdict")
       (auto simp: row_of_def reconstruct_def)
  from e s assms fit have r: "r = save_basic E p (fill_success E p fit (length hdict) (fusion ws es)
      (fusion ws2 ss)
      (angular_separation E (shower_az (event p)) (shower_alt (event p))
                   (fit_az fit) (fit_alt fit))
      (angular_separation E (run_array_az (event p)) (run_array_alt (event p))
                   (fit_az fit) (fit_alt fit)) RecoEvent_dflt)"
    by (simp add: row_of_def reconstruct_def)
  from estimate_energy_weights [OF e] estimate_score_weights [OF s] r
  show ?thesis
    by (intro exI [of _ es] exI [of _ ss]) (simp add: save_basic_def fill_success_def)
qed

lemma row_of_empty_dict:
  "hillas_dict p = Some [] \<Longrightarrow> reco_result p = Some fit \<Longrightarrow> \<exists>r. row_of E p = Inr r"
  by (simp add: row_of_def reconstruct_def)

text \<open>
  C1, as the code has it: for an event whose dictionary of telescopes is empty or whose
  intensities are all zero, the fusion raises nothing and returns NaN, whatever the estimates.
  With an empty dictionary a row is written (unless the event carries no fit, which has raised
  \<open>AttributeError\<close> before the fusion); and every row written for such an event has
  \<open>success = True\<close> with NaN as its energy and its score.
\<close>

theorem zero_weight_fusion_returns_nan:
  assumes "hillas_dict p = Some hdict" and "\<forall>(t, m) \<in> set hdict. intensity m = Fin 0"
  shows "(\<forall>value_tel. fusion (map (\<lambda>(t, m). intensity m) hdict) value_tel = NaN)
         \<and> (hdict = [] \<longrightarrow> (reco_result p \<noteq> None \<longrightarrow> (\<exists>r. row_of E p = Inr r))
                          \<and> (reco_result p = None \<longrightarrow> row_of E p = Inl AttributeError))
         \<and> (\<forall>r. row_of E p = Inr r \<longrightarrow> success r \<and> reco_energy r = NaN \<and> score r = NaN)"
proof -
  have z: "\<forall>w \<in> set (map (\<lambda>(t, m). intensity m) hdict). w = Fin 0"
    using assms(2) by auto
  have "success r \<and> reco_energy r = NaN \<and> score r = NaN" if "row_of E p = Inr r" for r
    using row_of_success [OF assms(1) that] by (auto simp: fusion_zero_weights [OF z])
  moreover have "\<exists>r. row_of E p = Inr r" if "hdict = []" "reco_result p \<noteq> None"
    using that assms(1) row_of_empty_dict [of p _ E] by auto
  ultimately show ?thesis
    using z by (auto simp: fusion_zero_weights row_of_no_fit)
qed

text \<open>One telescope of intensity zero.\<close>

theorem zero_weight_fusion_returns_nan_witness:
  "hillas_dict ex_one_tel = Some [(1, ex_moments)] \<and> intensity ex_moments = Fin 0
   \<and> fusion [Fin 0] [Fin 0] = NaN
   \<and> \<not> isl (row_of ex_env ex_one_tel)
   \<and> success (projr (row_of ex_env ex_one_tel))
   \<and> reco_energy (projr (row_of ex_env ex_one_tel)) = NaN"
proof -
  have "\<exists>r. row_of ex_env ex_one_tel = Inr r"
    by (simp add: row_of_def reconstruct_def ex_one_tel_def ex_no_geometry_def ex_event_def
        ex_env_def lookup_def)
  then obtain r where r: "row_of ex_env ex_one_tel = Inr r" ..
  have h: "hillas_dict ex_one_tel = Some [(1, ex_moments)]"
    by (simp add: ex_one_tel_def)
  have i: "\<forall>(t, m) \<in> set [(1::nat, ex_moments)]. intensity m = Fin 0"
    by (simp add: ex_moments_def)
  from zero_weight_fusion_returns_nan [OF h i, of ex_env] r h i show ?thesis
    by (simp add: ex_moments_def)
qed

text \<open>
  C1 as stated fails: on an event with an empty dictionary the fusion returns NaN, no error is
  raised, and the row is written with \<open>success = True\<close> and NaN as energy and score.
\<close>

theorem zero_weight_fusion_counterexample:
  "fusion [] [] = NaN
   \<and> \<not> isl (row_of ex_env ex_no_tels)
   \<and> success (projr (row_of ex_env ex_no_tels))
   \<and> reco_energy (projr (row_of ex_env ex_no_tels)) = NaN
   \<and> score (projr (row_of ex_env ex_no_tels)) = NaN"
proof -
  have f: "fusion [] [] = NaN"
    by (simp add: fusion_def np_sum_def py_sum_def pairwise_sum_short fadd_def binary64_0
        fdiv_def)
  have "reco_result ex_no_tels = Some ex_fit" "hillas_dict ex_no_tels = Some []"
    by (simp_all add: ex_no_tels_def ex_no_geometry_def)
  then show ?thesis
    using f by (simp add: row_of_def reconstruct_def fill_success_def save_basic_def)
qed

section \<open>The loops\<close>

lemma yielded_append: "yielded (t @ u) = yielded t @ yielded u"
  by (induction t rule: yielded.induct) simp_all

lemma appended_append: "appended (t @ u) = appended t @ appended u"
  by (induction t rule: appended.induct) simp_all

lemma inspected_append: "inspected (t @ u) = inspected t @ inspected u"
  by (induction t rule: inspected.induct) simp_all

lemma after_stop_append_no_stop:
  "\<forall>a \<in> set t. \<not> is_stop a \<Longrightarrow> after_stop (t @ u) = after_stop u"
  by (simp add: after_stop_def dropWhile_append2)

lemma stop_flag_mono: "stop_flag E i \<Longrightarrow> i \<le> j \<Longrightarrow> stop_flag E j"
  by (auto simp: stop_flag_def split: option.splits)

lemma event_loop_returned:
  assumes "event_loop E ps st = Returned st'" and "wrec st = RecoEvent_dflt"
  shows "\<exists>seg. trace st' = trace st @ seg
           \<and> wrec st' = RecoEvent_dflt \<and> stdout st' = stdout st
           \<and> rows_on_disk st' @ iobuf st' = rows_on_disk st @ iobuf st @ appended seg
           \<and> map Inr (appended seg) = map (row_of E) (yielded seg)
           \<and> prefix (yielded seg) ps
           \<and> inspections st' = inspections st + length (inspected seg)
           \<and> (\<forall>i < length (inspected seg). inspected seg ! i = stop_flag E (inspections st + i))
           \<and> successively may_follow seg
           \<and> (seg \<noteq> [] \<longrightarrow> (\<exists>p. hd seg = Yield p)
                 \<and> last seg = InspectEvent (stop_flag E (inspections st' - 1)))
           \<and> (after_stop seg = [] \<longrightarrow> yielded seg = ps)
           \<and> (after_stop seg \<in> {[], [InspectEvent True]})"
  using assms
proof (induction ps arbitrary: st)
  case Nil
  then show ?case by (intro exI [of _ "[]"]) (simp add: after_stop_def)
next
  case (Cons p ps)
  let ?st0 = "st\<lparr>trace := trace st @ [Yield p]\<rparr>"
  have w0: "wrec ?st0 = RecoEvent_dflt" using Cons.prems(2) by simp
  from Cons.prems(1) obtain r where r: "row_of E p = Inr r"
    by (cases "row_of E p") (auto simp: loop_body_row_of [OF w0])
  let ?st1 = "?st0\<lparr>wrec := RecoEvent_dflt, iobuf := [r],
                      rows_on_disk := rows_on_disk ?st0 @ iobuf ?st0,
                      trace := trace ?st0 @ [Flush, Append r]\<rparr>"
  have body: "loop_body E p ?st0 = Inr ?st1"
    by (simp add: loop_body_row_of [OF w0] r)
  let ?b = "stop_flag E (inspections st)"
  let ?st2 = "?st1\<lparr>inspections := Suc (inspections st),
                      trace := trace ?st1 @ [InspectEvent ?b]\<rparr>"
  have insp: "inspect_event E ?st1 = (?b, ?st2)"
    by (simp add: inspect_event_def)
  let ?blk = "[Yield p, Flush, Append r, InspectEvent ?b]"
  show ?case
  proof (cases ?b)
    case True
    with Cons.prems(1) body insp have st': "st' = ?st2" by simp
    show ?thesis
      by (rule exI [of _ ?blk])
         (simp add: st' r True after_stop_def is_stop_def)
  next
    case False
    with Cons.prems(1) body insp have "event_loop E ps ?st2 = Returned st'" by simp
    moreover have "wrec ?st2 = RecoEvent_dflt" by simp
    ultimately obtain seg where seg:
      "trace st' = trace ?st2 @ seg"
      "wrec st' = RecoEvent_dflt" "stdout st' = stdout ?st2"
      "rows_on_disk st' @ iobuf st' = rows_on_disk ?st2 @ iobuf ?st2 @ appended seg"
      "map Inr (appended seg) = map (row_of E) (yielded seg)"
      "prefix (yielded seg) ps"
      "inspections st' = inspections ?st2 + length (inspected seg)"
      "\<forall>i < length (inspected seg). inspected seg ! i = stop_flag E (inspections ?st2 + i)"
      "successively may_follow seg"
      "seg \<noteq> [] \<longrightarrow> (\<exists>p. hd seg = Yield p)
                 \<and> last seg = InspectEvent (stop_flag E (inspections st' - 1))"
      "after_stop seg = [] \<longrightarrow> yielded seg = ps"
      "after_stop seg \<in> {[], [InspectEvent True]}"
      using Cons.IH [of ?st2] by blast
    have ns: "\<forall>a \<in> set ?blk. \<not> is_stop a"
      using False by (simp add: is_stop_def)
    have as: "after_stop (?blk @ seg) = after_stop seg"
      using ns by (rule after_stop_append_no_stop)
    have succ: "successively may_follow (?blk @ seg)"
      using seg(9,10) False by (cases seg) (auto simp: successively_append_iff)
    have insp_eq: "\<forall>i < length (inspected (?blk @ seg)).
        inspected (?blk @ seg) ! i = stop_flag E (inspections st + i)"
      using seg(8) by (auto simp: nth_Cons split: nat.splits)
    have last: "?blk @ seg \<noteq> [] \<longrightarrow> (\<exists>p. hd (?blk @ seg) = Yield p)
                 \<and> last (?blk @ seg) = InspectEvent (stop_flag E (inspections st' - 1))"
      using seg(7,10) by (cases "seg = []") simp_all
    show ?thesis
      apply (rule exI [of _ "?blk @ seg"])
      apply (intro conjI)
      subgoal using seg(1) by simp
      subgoal using seg(2) by simp
      subgoal using seg(3) by simp
      subgoal using seg(4) by (simp add: appended_append)
      subgoal using seg(5) r by (simp add: appended_append yielded_append)
      subgoal using seg(6) by (simp add: yielded_append)
      subgoal using seg(7) by (simp add: inspected_append)
      subgoal by (rule insp_eq)
      subgoal by (rule succ)
      subgoal by (rule last)
      subgoal using seg(11) unfolding as by (simp add: yielded_append)
      subgoal using seg(12) unfolding as by simp
      done
  qed
qed


lemma after_stop_Nil_iff: "after_stop t = [] \<longleftrightarrow> (\<forall>a \<in> set t. \<not> is_stop a)"
  by (simp add: after_stop_def dropWhile_eq_Nil_conv)

lemma after_stop_append_stop: "after_stop t \<noteq> [] \<Longrightarrow> after_stop (t @ u) = after_stop t @ u"
  by (auto simp: after_stop_def dropWhile_eq_Nil_conv dropWhile_append1)

lemma last_after_stop: "after_stop t \<noteq> [] \<Longrightarrow> last (after_stop t) = last t"
proof -
  assume a: "after_stop t \<noteq> []"
  have "t = takeWhile (\<lambda>a. \<not> is_stop a) t @ after_stop t"
    by (simp add: after_stop_def)
  then have "last t = last (takeWhile (\<lambda>a. \<not> is_stop a) t @ after_stop t)" by simp
  also have "\<dots> = last (after_stop t)" using a by simp
  finally show ?thesis by simp
qed

lemma file_loop_returned:
  assumes "file_loop E fs st = Returned st'" and "wrec st = RecoEvent_dflt"
  shows "\<exists>seg. trace st' = trace st @ seg
           \<and> wrec st' = RecoEvent_dflt \<and> stdout st' = stdout st
           \<and> rows_on_disk st' @ iobuf st' = rows_on_disk st @ iobuf st @ appended seg
           \<and> map Inr (appended seg) = map (row_of E) (yielded seg)
           \<and> prefix (yielded seg) (concat (map (prepare_event E) fs))
           \<and> inspections st' = inspections st + length (inspected seg)
           \<and> (\<forall>i < length (inspected seg). inspected seg ! i = stop_flag E (inspections st + i))
           \<and> successively may_follow seg
           \<and> (seg \<noteq> [] \<longrightarrow> ((\<exists>p. hd seg = Yield p) \<or> (\<exists>s. hd seg = InspectFile s))
                 \<and> (\<exists>s. last seg = InspectFile s))
           \<and> (after_stop seg = [] \<longrightarrow> yielded seg = concat (map (prepare_event E) fs))
           \<and> (after_stop seg \<in> {[], [InspectEvent True, InspectFile True], [InspectFile True]})"
  using assms
proof (induction fs arbitrary: st)
  case Nil
  then show ?case by (intro exI [of _ "[]"]) (simp add: after_stop_def)
next
  case (Cons f fs)
  from Cons.prems(1) obtain st1 where ev: "event_loop E (prepare_event E f) st = Returned st1"
    by (cases "event_loop E (prepare_event E f) st") auto
  from event_loop_returned [OF ev Cons.prems(2)] obtain seg1 where seg1:
      "trace st1 = trace st @ seg1"
      "wrec st1 = RecoEvent_dflt" "stdout st1 = stdout st"
      "rows_on_disk st1 @ iobuf st1 = rows_on_disk st @ iobuf st @ appended seg1"
      "map Inr (appended seg1) = map (row_of E) (yielded seg1)"
      "prefix (yielded seg1) (prepare_event E f)"
      "inspections st1 = inspections st + length (inspected seg1)"
      "\<forall>i < length (inspected seg1). inspected seg1 ! i = stop_flag E (inspections st + i)"
      "successively may_follow seg1"
      "seg1 \<noteq> [] \<longrightarrow> (\<exists>p. hd seg1 = Yield p)
                 \<and> last seg1 = InspectEvent (stop_flag E (inspections st1 - 1))"
      "after_stop seg1 = [] \<longrightarrow> yielded seg1 = prepare_event E f"
      "after_stop seg1 \<in> {[], [InspectEvent True]}"
    by blast
  let ?b = "stop_flag E (inspections st1)"
  let ?st2 = "st1\<lparr>inspections := Suc (inspections st1), trace := trace st1 @ [InspectFile ?b]\<rparr>"
  have insp: "inspect_file E st1 = (?b, ?st2)"
    by (simp add: inspect_file_def)
  have m: "?b" if "stop_flag E (inspections st1 - 1)"
    using that by (rule stop_flag_mono) simp
  have link: "successively may_follow (seg1 @ [InspectFile ?b])"
  proof (cases "seg1 = []")
    case True
    then show ?thesis by simp
  next
    case False
    with seg1(9,10) m show ?thesis
      by (auto simp: successively_append_iff)
  qed
  have mono: "?b" if "after_stop seg1 \<noteq> []"
  proof -
    from that seg1(12) have as: "after_stop seg1 = [InspectEvent True]" by simp
    with last_after_stop [OF that] have l: "last seg1 = InspectEvent True" by simp
    from that have ne: "seg1 \<noteq> []" by (auto simp: after_stop_def)
    with seg1(10) l have "stop_flag E (inspections st1 - 1)" by simp
    then show ?thesis by (rule m)
  qed
  have idx1: "\<forall>i < length (inspected (seg1 @ [InspectFile ?b])).
      inspected (seg1 @ [InspectFile ?b]) ! i = stop_flag E (inspections st + i)"
    using seg1(7,8) by (auto simp: inspected_append nth_append less_Suc_eq)
  show ?case
  proof (cases ?b)
    case True
    with Cons.prems(1) ev insp have st': "st' = ?st2" by simp
    have as: "after_stop (seg1 @ [InspectFile True])
                \<in> {[], [InspectEvent True, InspectFile True], [InspectFile True]}"
    proof (cases "after_stop seg1 = []")
      case True
      then have "after_stop (seg1 @ [InspectFile True]) = after_stop [InspectFile True]"
        by (simp add: after_stop_Nil_iff after_stop_append_no_stop)
      then show ?thesis by (simp add: after_stop_def is_stop_def)
    next
      case False
      with seg1(12) after_stop_append_stop [OF False, of "[InspectFile True]"]
      show ?thesis by simp
    qed
    have ne: "after_stop (seg1 @ [InspectFile True]) \<noteq> []"
      by (simp add: after_stop_Nil_iff is_stop_def)
    show ?thesis
      apply (rule exI [of _ "seg1 @ [InspectFile ?b]"])
      apply (intro conjI)
      subgoal using seg1(1) by (simp add: st')
      subgoal using seg1(2) by (simp add: st')
      subgoal using seg1(3) by (simp add: st')
      subgoal using seg1(4) by (simp add: st' appended_append)
      subgoal using seg1(5) by (simp add: appended_append yielded_append)
      subgoal using seg1(6) by (simp add: yielded_append)
      subgoal using seg1(7) by (simp add: st' inspected_append)
      subgoal by (rule idx1)
      subgoal by (rule link)
      subgoal using seg1(10) by (cases "seg1 = []") simp_all
      subgoal using ne True by simp
      subgoal using as True by simp
      done
  next
    case False
    with mono have as1: "after_stop seg1 = []" by blast
    then have ns1: "\<forall>a \<in> set (seg1 @ [InspectFile ?b]). \<not> is_stop a"
      using False by (simp add: after_stop_Nil_iff is_stop_def)
    from False Cons.prems(1) ev insp have "file_loop E fs ?st2 = Returned st'" by simp
    moreover have "wrec ?st2 = RecoEvent_dflt" using seg1(2) by simp
    ultimately obtain seg where seg:
      "trace st' = trace ?st2 @ seg"
      "wrec st' = RecoEvent_dflt" "stdout st' = stdout ?st2"
      "rows_on_disk st' @ iobuf st' = rows_on_disk ?st2 @ iobuf ?st2 @ appended seg"
      "map Inr (appended seg) = map (row_of E) (yielded seg)"
      "prefix (yielded seg) (concat (map (prepare_event E) fs))"
      "inspections st' = inspections ?st2 + length (inspected seg)"
      "\<forall>i < length (inspected seg). inspected seg ! i = stop_flag E (inspections ?st2 + i)"
      "successively may_follow seg"
      "seg \<noteq> [] \<longrightarrow> ((\<exists>p. hd seg = Yield p) \<or> (\<exists>s. hd seg = InspectFile s))
                 \<and> (\<exists>s. last seg = InspectFile s)"
      "after_stop seg = [] \<longrightarrow> yielded seg = concat (map (prepare_event E) fs)"
      "after_stop seg \<in> {[], [InspectEvent True, InspectFile True], [InspectFile True]}"
      using Cons.IH [of ?st2] by blast
    define pre where "pre = seg1 @ [InspectFile ?b]"
    have tr: "trace ?st2 = trace st @ pre"
      using seg1(1) by (simp add: pre_def)
    have ap: "appended pre = appended seg1"
      by (simp add: pre_def appended_append)
    have yl: "yielded pre = prepare_event E f"
      using as1 seg1(11) by (simp add: pre_def yielded_append)
    have il: "inspections ?st2 = inspections st + length (inspected pre)"
      using seg1(7) by (simp add: pre_def inspected_append)
    have idx_pre: "\<forall>i < length (inspected pre). inspected pre ! i = stop_flag E (inspections st + i)"
      using idx1 by (simp add: pre_def)
    have succ_pre: "successively may_follow pre"
      using link by (simp add: pre_def)
    have ns_pre: "\<forall>a \<in> set pre. \<not> is_stop a"
      using ns1 by (simp add: pre_def)
    have ne_pre: "pre \<noteq> []"
      by (simp add: pre_def)
    have last_pre: "last pre = InspectFile False"
      using False by (simp add: pre_def)
    have hd_pre: "(\<exists>p. hd pre = Yield p) \<or> (\<exists>s. hd pre = InspectFile s)"
      using seg1(10) by (cases "seg1 = []") (simp_all add: pre_def)
    have as: "after_stop (pre @ seg) = after_stop seg"
      using ns_pre by (rule after_stop_append_no_stop)
    have succ: "successively may_follow (pre @ seg)"
    proof (cases "seg = []")
      case True
      with succ_pre show ?thesis by simp
    next
      case ne: False
      have "may_follow (last pre) (hd seg)"
        using seg(10) ne last_pre by auto
      with succ_pre seg(9) show ?thesis
        unfolding successively_append_iff by blast
    qed
    have idx: "\<forall>i < length (inspected (pre @ seg)).
        inspected (pre @ seg) ! i = stop_flag E (inspections st + i)"
    proof (intro allI impI)
      fix i assume i: "i < length (inspected (pre @ seg))"
      let ?n = "length (inspected pre)"
      show "inspected (pre @ seg) ! i = stop_flag E (inspections st + i)"
      proof (cases "i < ?n")
        case True
        with idx_pre show ?thesis by (simp add: inspected_append nth_append)
      next
        case False
        then have "inspected (pre @ seg) ! i = inspected seg ! (i - ?n)"
          by (simp add: inspected_append nth_append)
        moreover have "i - ?n < length (inspected seg)"
          using i False by (simp add: inspected_append)
        moreover have "inspections ?st2 + (i - ?n) = inspections st + i"
          using False il by simp
        ultimately show ?thesis using seg(8) by simp
      qed
    qed
    have hl: "pre @ seg \<noteq> [] \<longrightarrow>
        ((\<exists>p. hd (pre @ seg) = Yield p) \<or> (\<exists>s. hd (pre @ seg) = InspectFile s))
        \<and> (\<exists>s. last (pre @ seg) = InspectFile s)"
      using ne_pre hd_pre last_pre seg(10) by (cases "seg = []") auto
    show ?thesis
      apply (rule exI [of _ "pre @ seg"])
      apply (intro conjI)
      subgoal using tr seg(1) by simp
      subgoal using seg(2) by simp
      subgoal using seg1(3) seg(3) by simp
      subgoal using seg1(4) seg(4) ap by (simp add: appended_append)
      subgoal using seg1(5) seg(5) ap yl as1 seg1(11) by (simp add: appended_append yielded_append)
      subgoal using yl seg(6) by (simp add: yielded_append)
      subgoal using il seg(7) by (simp add: inspected_append)
      subgoal by (rule idx)
      subgoal by (rule succ)
      subgoal by (rule hl)
      subgoal using seg(11) yl unfolding as by (simp add: yielded_append)
      subgoal using seg(12) unfolding as by simp
      done
  qed
qed

lemma no_true_no_stop: "\<forall>b \<in> set (inspected t). \<not> b \<Longrightarrow> after_stop t = []"
  unfolding after_stop_Nil_iff
  by (induction t rule: inspected.induct) (auto simp: is_stop_def)

lemma run_loops_returned:
  assumes "run_loops E fs st = Returned st'" and "wrec st = RecoEvent_dflt"
  shows "\<exists>seg. trace st' = trace st @ seg @ [Flush]
           \<and> wrec st' = RecoEvent_dflt \<and> stdout st' = stdout st
           \<and> iobuf st' = []
           \<and> rows_on_disk st' = rows_on_disk st @ iobuf st @ appended seg
           \<and> map Inr (appended seg) = map (row_of E) (yielded seg)
           \<and> prefix (yielded seg) (concat (map (prepare_event E) fs))
           \<and> (\<forall>i < length (inspected seg). inspected seg ! i = stop_flag E (inspections st + i))
           \<and> successively may_follow (seg @ [Flush])
           \<and> (after_stop seg = [] \<longrightarrow> yielded seg = concat (map (prepare_event E) fs))
           \<and> (after_stop (seg @ [Flush])
                 \<in> {[], [InspectEvent True, InspectFile True, Flush], [InspectFile True, Flush]})"
proof -
  from assms(1) obtain st1 where fl: "file_loop E fs st = Returned st1" and st': "st' = flush st1"
    by (cases "file_loop E fs st") (auto simp: run_loops_def)
  from file_loop_returned [OF fl assms(2)] obtain seg where seg:
      "trace st1 = trace st @ seg"
      "wrec st1 = RecoEvent_dflt" "stdout st1 = stdout st"
      "rows_on_disk st1 @ iobuf st1 = rows_on_disk st @ iobuf st @ appended seg"
      "map Inr (appended seg) = map (row_of E) (yielded seg)"
      "prefix (yielded seg) (concat (map (prepare_event E) fs))"
      "inspections st1 = inspections st + length (inspected seg)"
      "\<forall>i < length (inspected seg). inspected seg ! i = stop_flag E (inspections st + i)"
      "successively may_follow seg"
      "seg \<noteq> [] \<longrightarrow> ((\<exists>p. hd seg = Yield p) \<or> (\<exists>s. hd seg = InspectFile s))
                 \<and> (\<exists>s. last seg = InspectFile s)"
      "after_stop seg = [] \<longrightarrow> yielded seg = concat (map (prepare_event E) fs)"
      "after_stop seg \<in> {[], [InspectEvent True, InspectFile True], [InspectFile True]}"
    by blast
  have succ: "successively may_follow (seg @ [Flush])"
  proof (cases "seg = []")
    case True
    then show ?thesis by simp
  next
    case False
    with seg(10) have "may_follow (last seg) Flush" by auto
    with seg(9) False show ?thesis
      unfolding successively_append_iff by simp
  qed
  have as: "after_stop (seg @ [Flush])
              \<in> {[], [InspectEvent True, InspectFile True, Flush], [InspectFile True, Flush]}"
  proof (cases "after_stop seg = []")
    case True
    then have "after_stop (seg @ [Flush]) = after_stop [Flush]"
      by (simp add: after_stop_Nil_iff after_stop_append_no_stop)
    then show ?thesis by (simp add: after_stop_def is_stop_def)
  next
    case False
    with seg(12) after_stop_append_stop [OF False, of "[Flush]"] show ?thesis by auto
  qed
  show ?thesis
    apply (rule exI [of _ seg])
    apply (intro conjI)
    subgoal using seg(1) by (simp add: st' flush_def)
    subgoal using seg(2) by (simp add: st' flush_def)
    subgoal using seg(3) by (simp add: st' flush_def)
    subgoal by (simp add: st' flush_def)
    subgoal using seg(4) by (simp add: st' flush_def)
    subgoal by (rule seg(5))
    subgoal by (rule seg(6))
    subgoal by (rule seg(8))
    subgoal by (rule succ)
    subgoal by (rule seg(11))
    subgoal by (rule as)
    done
qed

lemma main_returned:
  assumes "main E a = Returned st"
  shows "\<exists>fs seg. infile_list a = Some fs \<and> fs \<noteq> []
           \<and> trace st = seg @ [Flush]
           \<and> iobuf st = []
           \<and> rows_on_disk st = appended seg
           \<and> map Inr (appended seg) = map (row_of E) (yielded seg)
           \<and> prefix (yielded seg) (concat (map (prepare_event E)
                 (sort (concat (map (\<lambda>f. glob E (indir a @ ''/'' @ f)) fs)))))
           \<and> (\<forall>i < length (inspected seg). inspected seg ! i = stop_flag E i)
           \<and> successively may_follow (seg @ [Flush])
           \<and> (after_stop seg = [] \<longrightarrow> yielded seg = concat (map (prepare_event E)
                 (sort (concat (map (\<lambda>f. glob E (indir a @ ''/'' @ f)) fs)))))
           \<and> (after_stop (seg @ [Flush])
                 \<in> {[], [InspectEvent True, InspectFile True, Flush], [InspectFile True, Flush]})"
proof -
  from assms obtain fs where fs: "infile_list a = Some fs" "fs \<noteq> []"
    by (cases "infile_list a") (auto simp: main_def find_files_def split: if_splits)
  let ?fl = "sort (concat (map (\<lambda>f. glob E (indir a @ ''/'' @ f)) fs))"
  have ff: "find_files E a = Some ?fl"
    using fs by (simp add: find_files_def)
  from assms ff obtain st0 where run: "run_loops E ?fl init_state = Returned st0"
      and st: "st = st0\<lparr>stdout := stdout st0 @ [''Job done!'']\<rparr>"
    by (cases "run_loops E ?fl init_state") (auto simp: main_def split: if_splits)
  have w: "wrec init_state = RecoEvent_dflt" by (simp add: init_state_def)
  from run_loops_returned [OF run w] obtain seg where seg:
      "trace st0 = trace init_state @ seg @ [Flush]"
      "iobuf st0 = []"
      "rows_on_disk st0 = rows_on_disk init_state @ iobuf init_state @ appended seg"
      "map Inr (appended seg) = map (row_of E) (yielded seg)"
      "prefix (yielded seg) (concat (map (prepare_event E) ?fl))"
      "\<forall>i < length (inspected seg). inspected seg ! i = stop_flag E (inspections init_state + i)"
      "successively may_follow (seg @ [Flush])"
      "after_stop seg = [] \<longrightarrow> yielded seg = concat (map (prepare_event E) ?fl)"
      "after_stop (seg @ [Flush])
         \<in> {[], [InspectEvent True, InspectFile True, Flush], [InspectFile True, Flush]}"
    by blast
  show ?thesis
    apply (rule exI [of _ fs])
    apply (rule exI [of _ seg])
    apply (intro conjI)
    subgoal by (rule fs(1))
    subgoal by (rule fs(2))
    subgoal using seg(1) by (simp add: st init_state_def)
    subgoal using seg(2) by (simp add: st)
    subgoal using seg(3) by (simp add: st init_state_def)
    subgoal by (rule seg(4))
    subgoal by (rule seg(5))
    subgoal using seg(6) by (simp add: init_state_def)
    subgoal by (rule seg(7))
    subgoal by (rule seg(8))
    subgoal by (rule seg(9))
    done
qed

section \<open>Runs that an exception ends\<close>

lemma inspected_no_stop: "\<forall>a \<in> set t. \<not> is_stop a \<Longrightarrow> \<forall>b \<in> set (inspected t). \<not> b"
  by (induction t rule: inspected.induct) (auto simp: is_stop_def)

lemma event_loop_raised:
  assumes "event_loop E ps st = Raised err st'" and "wrec st = RecoEvent_dflt"
  shows "\<exists>seg p. trace st' = trace st @ seg @ [Yield p]
           \<and> row_of E p = Inl err
           \<and> stdout st' = stdout st
           \<and> rows_on_disk st' @ iobuf st' = rows_on_disk st @ iobuf st @ appended seg
           \<and> map Inr (appended seg) = map (row_of E) (yielded seg)
           \<and> prefix (yielded seg @ [p]) ps
           \<and> (\<forall>b \<in> set (inspected seg). \<not> b)"
  using assms
proof (induction ps arbitrary: st)
  case Nil
  then show ?case by simp
next
  case (Cons p ps)
  let ?st0 = "st\<lparr>trace := trace st @ [Yield p]\<rparr>"
  have w0: "wrec ?st0 = RecoEvent_dflt" using Cons.prems(2) by simp
  show ?case
  proof (cases "row_of E p")
    case (Inl e)
    then have "loop_body E p ?st0 = Inl e"
      by (simp add: loop_body_row_of [OF w0])
    with Cons.prems(1) have e: "e = err" and st': "st' = ?st0" by simp_all
    show ?thesis
      apply (rule exI [of _ "[]"])
      apply (rule exI [of _ p])
      using Inl e by (simp add: st')
  next
    case (Inr r)
    let ?st1 = "?st0\<lparr>wrec := RecoEvent_dflt, iobuf := [r],
                        rows_on_disk := rows_on_disk ?st0 @ iobuf ?st0,
                        trace := trace ?st0 @ [Flush, Append r]\<rparr>"
    have body: "loop_body E p ?st0 = Inr ?st1"
      by (simp add: loop_body_row_of [OF w0] Inr)
    let ?b = "stop_flag E (inspections st)"
    let ?st2 = "?st1\<lparr>inspections := Suc (inspections st),
                        trace := trace ?st1 @ [InspectEvent ?b]\<rparr>"
    have insp: "inspect_event E ?st1 = (?b, ?st2)"
      by (simp add: inspect_event_def)
    from Cons.prems(1) body insp have nb: "\<not> ?b"
      by (cases ?b) simp_all
    with Cons.prems(1) body insp have "event_loop E ps ?st2 = Raised err st'" by simp
    moreover have "wrec ?st2 = RecoEvent_dflt" by simp
    ultimately obtain seg q where seg:
        "trace st' = trace ?st2 @ seg @ [Yield q]"
        "row_of E q = Inl err"
        "stdout st' = stdout ?st2"
        "rows_on_disk st' @ iobuf st' = rows_on_disk ?st2 @ iobuf ?st2 @ appended seg"
        "map Inr (appended seg) = map (row_of E) (yielded seg)"
        "prefix (yielded seg @ [q]) ps"
        "\<forall>b \<in> set (inspected seg). \<not> b"
      using Cons.IH [of ?st2] by blast
    let ?blk = "[Yield p, Flush, Append r, InspectEvent ?b]"
    show ?thesis
      apply (rule exI [of _ "?blk @ seg"])
      apply (rule exI [of _ q])
      apply (intro conjI)
      subgoal using seg(1) by simp
      subgoal by (rule seg(2))
      subgoal using seg(3) by simp
      subgoal using seg(4) by (simp add: appended_append)
      subgoal using seg(5) Inr by (simp add: appended_append yielded_append)
      subgoal using seg(6) by (simp add: yielded_append)
      subgoal using seg(7) nb by (simp add: inspected_append)
      done
  qed
qed

lemma file_loop_raised:
  assumes "file_loop E fs st = Raised err st'" and "wrec st = RecoEvent_dflt"
  shows "\<exists>seg p. trace st' = trace st @ seg @ [Yield p]
           \<and> row_of E p = Inl err
           \<and> stdout st' = stdout st
           \<and> rows_on_disk st' @ iobuf st' = rows_on_disk st @ iobuf st @ appended seg
           \<and> map Inr (appended seg) = map (row_of E) (yielded seg)
           \<and> prefix (yielded seg @ [p]) (concat (map (prepare_event E) fs))
           \<and> (\<forall>b \<in> set (inspected seg). \<not> b)"
  using assms
proof (induction fs arbitrary: st)
  case Nil
  then show ?case by simp
next
  case (Cons f fs)
  show ?case
  proof (cases "event_loop E (prepare_event E f) st")
    case (Raised e st1)
    with Cons.prems(1) have e: "e = err" and st1: "st1 = st'" by simp_all
    from Raised have ev: "event_loop E (prepare_event E f) st = Raised err st'"
      by (simp add: e st1)
    from event_loop_raised [OF ev Cons.prems(2)] obtain seg p where seg:
        "trace st' = trace st @ seg @ [Yield p]"
        "row_of E p = Inl err"
        "stdout st' = stdout st"
        "rows_on_disk st' @ iobuf st' = rows_on_disk st @ iobuf st @ appended seg"
        "map Inr (appended seg) = map (row_of E) (yielded seg)"
        "prefix (yielded seg @ [p]) (prepare_event E f)"
        "\<forall>b \<in> set (inspected seg). \<not> b"
      by blast
    from seg(6) have "prefix (yielded seg @ [p]) (prepare_event E f @ concat (map (prepare_event E) fs))"
      by (rule prefix_prefix)
    with seg show ?thesis
      by (intro exI [of _ seg] exI [of _ p]) simp
  next
    case (Returned st1)
    from event_loop_returned [OF Returned Cons.prems(2)] obtain seg1 where seg1:
        "trace st1 = trace st @ seg1"
        "wrec st1 = RecoEvent_dflt" "stdout st1 = stdout st"
        "rows_on_disk st1 @ iobuf st1 = rows_on_disk st @ iobuf st @ appended seg1"
        "map Inr (appended seg1) = map (row_of E) (yielded seg1)"
        "seg1 \<noteq> [] \<longrightarrow> (\<exists>p. hd seg1 = Yield p)
                   \<and> last seg1 = InspectEvent (stop_flag E (inspections st1 - 1))"
        "after_stop seg1 = [] \<longrightarrow> yielded seg1 = prepare_event E f"
        "after_stop seg1 \<in> {[], [InspectEvent True]}"
      by blast
    let ?b = "stop_flag E (inspections st1)"
    let ?st2 = "st1\<lparr>inspections := Suc (inspections st1), trace := trace st1 @ [InspectFile ?b]\<rparr>"
    have insp: "inspect_file E st1 = (?b, ?st2)"
      by (simp add: inspect_file_def)
    from Cons.prems(1) Returned insp have nb: "\<not> ?b"
      by (cases ?b) simp_all
    have as1: "after_stop seg1 = []"
    proof (rule ccontr)
      assume that: "after_stop seg1 \<noteq> []"
      with seg1(8) have "after_stop seg1 = [InspectEvent True]" by simp
      with last_after_stop [OF that] have l: "last seg1 = InspectEvent True" by simp
      from that have "seg1 \<noteq> []" by (auto simp: after_stop_def)
      with seg1(6) l have "stop_flag E (inspections st1 - 1)" by simp
      then have ?b by (rule stop_flag_mono) simp
      with nb show False by simp
    qed
    from nb Cons.prems(1) Returned insp have "file_loop E fs ?st2 = Raised err st'" by simp
    moreover have "wrec ?st2 = RecoEvent_dflt" using seg1(2) by simp
    ultimately obtain seg p where seg:
        "trace st' = trace ?st2 @ seg @ [Yield p]"
        "row_of E p = Inl err"
        "stdout st' = stdout ?st2"
        "rows_on_disk st' @ iobuf st' = rows_on_disk ?st2 @ iobuf ?st2 @ appended seg"
        "map Inr (appended seg) = map (row_of E) (yielded seg)"
        "prefix (yielded seg @ [p]) (concat (map (prepare_event E) fs))"
        "\<forall>b \<in> set (inspected seg). \<not> b"
      using Cons.IH [of ?st2] by blast
    define pre where "pre = seg1 @ [InspectFile ?b]"
    have tr: "trace ?st2 = trace st @ pre"
      using seg1(1) by (simp add: pre_def)
    have ap: "appended pre = appended seg1"
      by (simp add: pre_def appended_append)
    have yl: "yielded pre = prepare_event E f"
      using as1 seg1(7) by (simp add: pre_def yielded_append)
    have "\<forall>a \<in> set pre. \<not> is_stop a"
      using as1 nb by (simp add: pre_def after_stop_Nil_iff is_stop_def)
    then have ins: "\<forall>b \<in> set (inspected pre). \<not> b"
      by (rule inspected_no_stop)
    have rows: "map Inr (appended pre) = map (row_of E) (yielded pre)"
      using seg1(5) as1 seg1(7) by (simp add: ap yl)
    show ?thesis
      apply (rule exI [of _ "pre @ seg"])
      apply (rule exI [of _ p])
      apply (intro conjI)
      subgoal using tr seg(1) by simp
      subgoal by (rule seg(2))
      subgoal using seg1(3) seg(3) by simp
      subgoal using seg1(4) seg(4) ap by (simp add: appended_append)
      subgoal using rows seg(5) by (simp add: appended_append yielded_append)
      subgoal using yl seg(6) by (simp add: yielded_append)
      subgoal using ins seg(7) by (auto simp: inspected_append)
      done
  qed
qed

lemma main_raised:
  assumes "main E a = Raised err st"
  shows "(trace st = [] \<and> rows_on_disk st = [] \<and> iobuf st = []
            \<and> (err = UnboundLocalError \<or> err = SystemExit (- 1)))
         \<or> (\<exists>fs seg p. infile_list a = Some fs
               \<and> trace st = seg @ [Yield p]
               \<and> row_of E p = Inl err
               \<and> rows_on_disk st @ iobuf st = appended seg
               \<and> map Inr (appended seg) = map (row_of E) (yielded seg)
               \<and> prefix (yielded seg @ [p]) (concat (map (prepare_event E)
                     (sort (concat (map (\<lambda>f. glob E (indir a @ ''/'' @ f)) fs)))))
               \<and> (\<forall>b \<in> set (inspected seg). \<not> b))"
proof (cases "find_files E a")
  case None
  with assms show ?thesis by (auto simp: main_def init_state_def)
next
  case (Some fl)
  show ?thesis
  proof (cases "fl = []")
    case True
    with assms Some show ?thesis by (auto simp: main_def init_state_def)
  next
    case False
    from Some obtain fs where fs: "infile_list a = Some fs"
        and fl: "fl = sort (concat (map (\<lambda>f. glob E (indir a @ ''/'' @ f)) fs))"
      by (cases "infile_list a") (auto simp: find_files_def split: if_splits)
    from assms Some False have "run_loops E fl init_state = Raised err st"
      by (cases "run_loops E fl init_state") (simp_all add: main_def)
    then have run: "file_loop E fl init_state = Raised err st"
      by (cases "file_loop E fl init_state") (simp_all add: run_loops_def)
    have w: "wrec init_state = RecoEvent_dflt" by (simp add: init_state_def)
    from file_loop_raised [OF run w] obtain seg p where seg:
        "trace st = trace init_state @ seg @ [Yield p]"
        "row_of E p = Inl err"
        "rows_on_disk st @ iobuf st = rows_on_disk init_state @ iobuf init_state @ appended seg"
        "map Inr (appended seg) = map (row_of E) (yielded seg)"
        "prefix (yielded seg @ [p]) (concat (map (prepare_event E) fl))"
        "\<forall>b \<in> set (inspected seg). \<not> b"
      by blast
    show ?thesis
      apply (rule disjI2)
      apply (rule exI [of _ fs])
      apply (rule exI [of _ seg])
      apply (rule exI [of _ p])
      apply (intro conjI)
      subgoal by (rule fs)
      subgoal using seg(1) by (simp add: init_state_def)
      subgoal by (rule seg(2))
      subgoal using seg(3) by (simp add: init_state_def)
      subgoal by (rule seg(4))
      subgoal using seg(5) by (simp add: fl)
      subgoal by (rule seg(6))
      done
  qed
qed

section \<open>Runs that return\<close>

text \<open>Three runs evaluated: two files, one file with two events, and a stop at the first inspection.\<close>

lemma row_of_ex_no_geometry: "row_of E ex_no_geometry = Inr (ex_row\<lparr>mc_energy := to_float32 (to_TeV E (Fin 0))\<rparr>)"
  by (simp add: row_of_no_geometry ex_no_geometry_def ex_row_def ex_event_def to_int16_def
      to_int32_def RecoEvent_dflt_def)

lemma row_of_ex_event_b:
  "row_of E ex_event_b = Inr (ex_row\<lparr>mc_energy := to_float32 (to_TeV E (Fin 0)), event_id := 8\<rparr>)"
  by (simp add: row_of_no_geometry ex_event_b_def ex_no_geometry_def ex_row_def ex_event_def
      to_int16_def to_int32_def RecoEvent_dflt_def)

lemma ex_row_energy: "ex_row\<lparr>mc_energy := Fin 0\<rparr> = ex_row"
  by (simp add: ex_row_def)

lemma ex_main_files:
  "main ex_env_files ex_args_two =
     Returned \<lparr>wrec = RecoEvent_dflt, iobuf = [],
               rows_on_disk = [ex_row, ex_row\<lparr>event_id := 8\<rparr>],
               inspections = 4,
               trace = [Yield ex_no_geometry, Flush, Append ex_row, InspectEvent False,
                        InspectFile False,
                        Yield ex_event_b, Flush, Append (ex_row\<lparr>event_id := 8\<rparr>),
                        InspectEvent False, InspectFile False, Flush],
               stdout = [''Job done!'']\<rparr>"
proof -
  have ff: "find_files ex_env_files ex_args_two = Some [''data/a.simtel'', ''data/b.simtel'']"
    by (simp add: find_files_def ex_args_two_def ex_env_files_def ex_env_def)
  have t: "to_TeV ex_env_files = (\<lambda>x. x)" "stop_from ex_env_files = None"
    "prepare_event ex_env_files ''data/a.simtel'' = [ex_no_geometry]"
    "prepare_event ex_env_files ''data/b.simtel'' = [ex_event_b]"
    by (simp_all add: ex_env_files_def ex_env_def)
  show ?thesis
    by (simp add: main_def ff run_loops_def t loop_body_row_of row_of_ex_no_geometry
        row_of_ex_event_b binary32_0 inspect_event_def inspect_file_def stop_flag_def
        flush_def init_state_def ex_row_energy)
qed


lemma ex_main_two:
  "main ex_env_two ex_args =
     Returned \<lparr>wrec = RecoEvent_dflt, iobuf = [],
               rows_on_disk = [ex_row, ex_row\<lparr>event_id := 8\<rparr>],
               inspections = 3,
               trace = [Yield ex_no_geometry, Flush, Append ex_row, InspectEvent False,
                        Yield ex_event_b, Flush, Append (ex_row\<lparr>event_id := 8\<rparr>),
                        InspectEvent False, InspectFile False, Flush],
               stdout = [''Job done!'']\<rparr>"
proof -
  have ff: "find_files ex_env_two ex_args = Some [''data/gamma_run1.simtel.gz'']"
    by (simp add: find_files_def ex_args_def ex_env_two_def ex_env_def)
  have t: "to_TeV ex_env_two = (\<lambda>x. x)" "stop_from ex_env_two = None"
    "prepare_event ex_env_two ''data/gamma_run1.simtel.gz'' = [ex_no_geometry, ex_event_b]"
    by (simp_all add: ex_env_two_def ex_env_def)
  show ?thesis
    by (simp add: main_def ff run_loops_def t loop_body_row_of row_of_ex_no_geometry
        row_of_ex_event_b binary32_0 inspect_event_def inspect_file_def stop_flag_def
        flush_def init_state_def ex_row_energy)
qed

lemma ex_main_stop:
  "main ex_env_stop ex_args =
     Returned \<lparr>wrec = RecoEvent_dflt, iobuf = [],
               rows_on_disk = [ex_row],
               inspections = 2,
               trace = [Yield ex_no_geometry, Flush, Append ex_row, InspectEvent True,
                        InspectFile True, Flush],
               stdout = [''Job done!'']\<rparr>"
proof -
  have ff: "find_files ex_env_stop ex_args = Some [''data/gamma_run1.simtel.gz'']"
    by (simp add: find_files_def ex_args_def ex_env_stop_def ex_env_two_def ex_env_def)
  have t: "to_TeV ex_env_stop = (\<lambda>x. x)" "stop_from ex_env_stop = Some 0"
    "prepare_event ex_env_stop ''data/gamma_run1.simtel.gz'' = [ex_no_geometry, ex_event_b]"
    by (simp_all add: ex_env_stop_def ex_env_two_def ex_env_def)
  show ?thesis
    by (simp add: main_def ff run_loops_def t loop_body_row_of row_of_ex_no_geometry
        row_of_ex_event_b binary32_0 inspect_event_def inspect_file_def stop_flag_def
        flush_def init_state_def ex_row_energy)
qed

lemma ex_loop_body:
  "loop_body ex_env_two ex_no_geometry init_state =
     Inr (init_state\<lparr>iobuf := [ex_row], trace := [Flush, Append ex_row]\<rparr>)"
  by (simp add: loop_body_row_of row_of_ex_no_geometry init_state_def ex_env_two_def ex_env_def
      binary32_0 ex_row_energy)

lemma row_of_ex_one_tel_no_models:
  "regressor_model_dict E = Map.empty \<Longrightarrow> row_of E ex_one_tel = Inl KeyError"
  by (simp add: row_of_def reconstruct_def ex_one_tel_def ex_no_geometry_def ex_event_def
      lookup_def)

lemma ex_main_abort:
  assumes "to_TeV E = (\<lambda>x. x)" "regressor_model_dict E = Map.empty"
    "glob E = (\<lambda>pattern. [pattern])"
    "prepare_event E ''data/gamma_run1.simtel.gz'' = [ex_no_geometry, ex_one_tel]"
    "\<not> stop_flag E 0"
  shows "main E ex_args =
     Raised KeyError \<lparr>wrec = RecoEvent_dflt, iobuf = [ex_row], rows_on_disk = [],
                       inspections = 1,
                       trace = [Yield ex_no_geometry, Flush, Append ex_row, InspectEvent False,
                                Yield ex_one_tel],
                       stdout = []\<rparr>"
proof -
  have ff: "find_files E ex_args = Some [''data/gamma_run1.simtel.gz'']"
    by (simp add: find_files_def ex_args_def assms(3))
  show ?thesis
    by (simp add: main_def ff run_loops_def assms loop_body_row_of row_of_ex_no_geometry
        row_of_ex_one_tel_no_models binary32_0 inspect_event_def init_state_def ex_row_energy)
qed

lemma ex_main_abort_run:
  "main ex_env_abort ex_args =
     Raised KeyError \<lparr>wrec = RecoEvent_dflt, iobuf = [ex_row], rows_on_disk = [],
                       inspections = 1,
                       trace = [Yield ex_no_geometry, Flush, Append ex_row, InspectEvent False,
                                Yield ex_one_tel],
                       stdout = []\<rparr>"
  by (rule ex_main_abort)
    (simp_all add: ex_env_abort_def ex_env_no_models_def ex_env_def stop_flag_def)

lemma ex_main_abort_stop_run:
  "main ex_env_abort_stop ex_args =
     Raised KeyError \<lparr>wrec = RecoEvent_dflt, iobuf = [ex_row], rows_on_disk = [],
                       inspections = 1,
                       trace = [Yield ex_no_geometry, Flush, Append ex_row, InspectEvent False,
                                Yield ex_one_tel],
                       stdout = []\<rparr>"
  by (rule ex_main_abort)
    (simp_all add: ex_env_abort_stop_def ex_env_abort_def ex_env_no_models_def ex_env_def
      stop_flag_def)

text \<open>
  C3, as the code has it: in a run that returns, the rows of the table are the rows of the
  events taken from the preparer, one row for each event and in the order the events arrived,
  whether or not the reconstruction of an event succeeded. The files are read in the sorted
  order of their names and the events of a file in the order the source gives them: the events
  taken are a prefix of that sequence, and all of it when the stop flag is never set. The rows
  are thus a function of the input, the models and the geometry. A run that an exception ends
  has either taken no event and appended no row, or the exception is the one the row of the
  last event taken raises: that event has no row, and every event taken before it has its row
  appended, in order, the rows appended being those in storage followed by those in the buffer.
\<close>

theorem records_follow_events:
  "(main E a = Returned st \<longrightarrow>
      (\<exists>fs filenamelist.
           infile_list a = Some fs
           \<and> filenamelist = sort (concat (map (\<lambda>f. glob E (indir a @ ''/'' @ f)) fs))
           \<and> map Inr (rows_on_disk st) = map (row_of E) (yielded (trace st))
           \<and> appended (trace st) = rows_on_disk st
           \<and> length (rows_on_disk st) = length (yielded (trace st))
           \<and> prefix (yielded (trace st)) (concat (map (prepare_event E) filenamelist))
           \<and> (stop_from E = None
                \<longrightarrow> yielded (trace st) = concat (map (prepare_event E) filenamelist))))
   \<and> (main E a = Raised err st \<longrightarrow>
        (yielded (trace st) = [] \<and> appended (trace st) = []
           \<and> rows_on_disk st = [] \<and> iobuf st = [])
        \<or> (\<exists>fs filenamelist.
              infile_list a = Some fs
              \<and> filenamelist = sort (concat (map (\<lambda>f. glob E (indir a @ ''/'' @ f)) fs))
              \<and> yielded (trace st) \<noteq> []
              \<and> row_of E (last (yielded (trace st))) = Inl err
              \<and> map Inr (appended (trace st)) = map (row_of E) (butlast (yielded (trace st)))
              \<and> rows_on_disk st @ iobuf st = appended (trace st)
              \<and> Suc (length (appended (trace st))) = length (yielded (trace st))
              \<and> prefix (yielded (trace st)) (concat (map (prepare_event E) filenamelist))))"
proof (rule conjI; rule impI)
  assume ret: "main E a = Returned st"
  from main_returned [OF ret] obtain fs seg where m:
      "infile_list a = Some fs"
      "trace st = seg @ [Flush]"
      "rows_on_disk st = appended seg"
      "map Inr (appended seg) = map (row_of E) (yielded seg)"
      "prefix (yielded seg) (concat (map (prepare_event E)
                 (sort (concat (map (\<lambda>f. glob E (indir a @ ''/'' @ f)) fs)))))"
      "\<forall>i < length (inspected seg). inspected seg ! i = stop_flag E i"
      "after_stop seg = [] \<longrightarrow> yielded seg = concat (map (prepare_event E)
                 (sort (concat (map (\<lambda>f. glob E (indir a @ ''/'' @ f)) fs))))"
    by blast
  have y: "yielded (trace st) = yielded seg" and ap: "appended (trace st) = appended seg"
    by (simp_all add: m(2) yielded_append appended_append)
  have len: "length (appended seg) = length (yielded seg)"
    using arg_cong [OF m(4), of length] by simp
  have all: "yielded seg = concat (map (prepare_event E)
                 (sort (concat (map (\<lambda>f. glob E (indir a @ ''/'' @ f)) fs))))"
    if "stop_from E = None"
  proof -
    from that m(6) have "\<forall>b \<in> set (inspected seg). \<not> b"
      by (auto simp: in_set_conv_nth stop_flag_def)
    then have "after_stop seg = []" by (rule no_true_no_stop)
    with m(7) show ?thesis by simp
  qed
  show "\<exists>fs filenamelist.
           infile_list a = Some fs
           \<and> filenamelist = sort (concat (map (\<lambda>f. glob E (indir a @ ''/'' @ f)) fs))
           \<and> map Inr (rows_on_disk st) = map (row_of E) (yielded (trace st))
           \<and> appended (trace st) = rows_on_disk st
           \<and> length (rows_on_disk st) = length (yielded (trace st))
           \<and> prefix (yielded (trace st)) (concat (map (prepare_event E) filenamelist))
           \<and> (stop_from E = None
                \<longrightarrow> yielded (trace st) = concat (map (prepare_event E) filenamelist))"
    using m(1,3,4,5) y ap len all by auto
next
  assume rai: "main E a = Raised err st"
  from main_raised [OF rai] consider
      (none) "trace st = []" "rows_on_disk st = []" "iobuf st = []"
    | (some) fs seg p where "infile_list a = Some fs"
        "trace st = seg @ [Yield p]"
        "row_of E p = Inl err"
        "rows_on_disk st @ iobuf st = appended seg"
        "map Inr (appended seg) = map (row_of E) (yielded seg)"
        "prefix (yielded seg @ [p]) (concat (map (prepare_event E)
                     (sort (concat (map (\<lambda>f. glob E (indir a @ ''/'' @ f)) fs)))))"
    by blast
  then show "(yielded (trace st) = [] \<and> appended (trace st) = []
           \<and> rows_on_disk st = [] \<and> iobuf st = [])
        \<or> (\<exists>fs filenamelist.
              infile_list a = Some fs
              \<and> filenamelist = sort (concat (map (\<lambda>f. glob E (indir a @ ''/'' @ f)) fs))
              \<and> yielded (trace st) \<noteq> []
              \<and> row_of E (last (yielded (trace st))) = Inl err
              \<and> map Inr (appended (trace st)) = map (row_of E) (butlast (yielded (trace st)))
              \<and> rows_on_disk st @ iobuf st = appended (trace st)
              \<and> Suc (length (appended (trace st))) = length (yielded (trace st))
              \<and> prefix (yielded (trace st)) (concat (map (prepare_event E) filenamelist)))"
  proof cases
    case none
    then show ?thesis by simp
  next
    case some
    have y: "yielded (trace st) = yielded seg @ [p]"
      and ap: "appended (trace st) = appended seg"
      by (simp_all add: some(2) yielded_append appended_append)
    have len: "length (appended seg) = length (yielded seg)"
      using arg_cong [OF some(5), of length] by simp
    show ?thesis
      apply (rule disjI2)
      apply (rule exI [of _ fs])
      apply (rule exI [of _ "sort (concat (map (\<lambda>f. glob E (indir a @ ''/'' @ f)) fs))"])
      apply (intro conjI)
      subgoal by (rule some(1))
      subgoal by (rule refl)
      subgoal by (simp add: y)
      subgoal using some(3) by (simp add: y)
      subgoal using some(5) by (simp add: y ap)
      subgoal using some(4) by (simp add: ap)
      subgoal using len by (simp add: y ap)
      subgoal using some(6) by (simp add: y)
      done
  qed
qed

text \<open>
  Two files given in the order b, a: the row of the event of a comes first. One file with two
  events, the second without a model for its camera: one row, for the first event.
\<close>

theorem records_follow_events_witness:
  "main ex_env_files ex_args_two =
     Returned \<lparr>wrec = RecoEvent_dflt, iobuf = [],
               rows_on_disk = [ex_row, ex_row\<lparr>event_id := 8\<rparr>],
               inspections = 4,
               trace = [Yield ex_no_geometry, Flush, Append ex_row, InspectEvent False,
                        InspectFile False,
                        Yield ex_event_b, Flush, Append (ex_row\<lparr>event_id := 8\<rparr>),
                        InspectEvent False, InspectFile False, Flush],
               stdout = [''Job done!'']\<rparr>
   \<and> map Inr [ex_row, ex_row\<lparr>event_id := 8\<rparr>] = map (row_of ex_env_files) [ex_no_geometry, ex_event_b]
   \<and> sort (concat (map (\<lambda>f. glob ex_env_files (indir ex_args_two @ ''/'' @ f)) [''b.simtel'', ''a.simtel'']))
       = [''data/a.simtel'', ''data/b.simtel'']
   \<and> main ex_env_abort ex_args =
       Raised KeyError \<lparr>wrec = RecoEvent_dflt, iobuf = [ex_row], rows_on_disk = [],
                         inspections = 1,
                         trace = [Yield ex_no_geometry, Flush, Append ex_row, InspectEvent False,
                                  Yield ex_one_tel],
                         stdout = []\<rparr>
   \<and> row_of ex_env_abort ex_one_tel = Inl KeyError
   \<and> map Inr [ex_row] = map (row_of ex_env_abort) [ex_no_geometry]"
proof -
  define st1 where "st1 = \<lparr>wrec = RecoEvent_dflt, iobuf = [],
               rows_on_disk = [ex_row, ex_row\<lparr>event_id := 8\<rparr>],
               inspections = 4,
               trace = [Yield ex_no_geometry, Flush, Append ex_row, InspectEvent False,
                        InspectFile False,
                        Yield ex_event_b, Flush, Append (ex_row\<lparr>event_id := 8\<rparr>),
                        InspectEvent False, InspectFile False, Flush],
               stdout = [''Job done!'']\<rparr>"
  define st2 where "st2 = \<lparr>wrec = RecoEvent_dflt, iobuf = [ex_row], rows_on_disk = [],
                         inspections = 1,
                         trace = [Yield ex_no_geometry, Flush, Append ex_row, InspectEvent False,
                                  Yield ex_one_tel],
                         stdout = []\<rparr>"
  have r1: "main ex_env_files ex_args_two = Returned st1"
    unfolding st1_def by (rule ex_main_files)
  have r2: "main ex_env_abort ex_args = Raised KeyError st2"
    unfolding st2_def by (rule ex_main_abort_run)
  have y1: "yielded (trace st1) = [ex_no_geometry, ex_event_b]"
    and d1: "rows_on_disk st1 = [ex_row, ex_row\<lparr>event_id := 8\<rparr>]"
    by (simp_all add: st1_def)
  have y2: "yielded (trace st2) = [ex_no_geometry, ex_one_tel]"
    and a2: "appended (trace st2) = [ex_row]"
    by (simp_all add: st2_def)
  from records_follow_events [of ex_env_files ex_args_two st1 KeyError] r1
  have a: "map Inr (rows_on_disk st1) = map (row_of ex_env_files) (yielded (trace st1))"
    by blast
  from records_follow_events [of ex_env_abort ex_args st2 KeyError] r2 y2
  have b: "row_of ex_env_abort (last (yielded (trace st2))) = Inl KeyError
           \<and> map Inr (appended (trace st2))
               = map (row_of ex_env_abort) (butlast (yielded (trace st2)))"
    by auto
  have s: "sort (concat (map (\<lambda>f. glob ex_env_files (indir ex_args_two @ ''/'' @ f))
                  [''b.simtel'', ''a.simtel'']))
       = [''data/a.simtel'', ''data/b.simtel'']"
    by (simp add: ex_args_two_def ex_env_files_def ex_env_def)
  from a b s r1 r2 show ?thesis
    unfolding y1 d1 y2 a2 by (simp add: st1_def st2_def)
qed

text \<open>
  C3 as stated fails: not every run returns. In a run over one file with two events, the second
  with a telescope whose camera has no model, both events are taken from the preparer and one
  row is appended: the lookup of the model raises \<open>KeyError\<close>, the exception leaves the loops,
  and the row of the first event is still in the buffer, with none in storage.
\<close>

theorem records_follow_events_counterexample:
  "main ex_env_abort ex_args =
     Raised KeyError \<lparr>wrec = RecoEvent_dflt, iobuf = [ex_row], rows_on_disk = [],
                       inspections = 1,
                       trace = [Yield ex_no_geometry, Flush, Append ex_row, InspectEvent False,
                                Yield ex_one_tel],
                       stdout = []\<rparr>
   \<and> yielded [Yield ex_no_geometry, Flush, Append ex_row, InspectEvent False, Yield ex_one_tel]
       = [ex_no_geometry, ex_one_tel]
   \<and> appended [Yield ex_no_geometry, Flush, Append ex_row, InspectEvent False, Yield ex_one_tel]
       = [ex_row]
   \<and> prepare_event ex_env_abort ''data/gamma_run1.simtel.gz'' = [ex_no_geometry, ex_one_tel]"
  using ex_main_abort_run
  by (simp add: ex_env_abort_def)

section \<open>Flushing\<close>

text \<open>
  C7, as the code has it: for every processed event the table is flushed and then exactly one
  row is appended. The flush comes before the append: when the body returns, the rows of all
  earlier events are in storage and the row of this event is still in the buffer. The flush
  after the loops writes the last row, so that every appended row is in storage when the run
  returns.
\<close>

theorem flush_precedes_append:
  "(wrec st0 = RecoEvent_dflt \<and> loop_body E p st0 = Inr st1 \<longrightarrow>
      (\<exists>r. row_of E p = Inr r
           \<and> trace st1 = trace st0 @ [Flush, Append r]
           \<and> rows_on_disk st1 = rows_on_disk st0 @ iobuf st0
           \<and> iobuf st1 = [r]))
   \<and> (main E a = Returned st \<longrightarrow>
        iobuf st = [] \<and> rows_on_disk st = appended (trace st) \<and> last (trace st) = Flush
        \<and> length (appended (trace st)) = length (yielded (trace st)))"
proof (rule conjI; rule impI)
  assume a: "wrec st0 = RecoEvent_dflt \<and> loop_body E p st0 = Inr st1"
  then show "\<exists>r. row_of E p = Inr r
           \<and> trace st1 = trace st0 @ [Flush, Append r]
           \<and> rows_on_disk st1 = rows_on_disk st0 @ iobuf st0
           \<and> iobuf st1 = [r]"
    by (cases "row_of E p") (auto simp: loop_body_row_of)
next
  assume "main E a = Returned st"
  from main_returned [OF this] obtain seg where m:
      "trace st = seg @ [Flush]" "iobuf st = []" "rows_on_disk st = appended seg"
      "map Inr (appended seg) = map (row_of E) (yielded seg)"
    by blast
  have "length (appended seg) = length (yielded seg)"
    using arg_cong [OF m(4), of length] by simp
  with m show "iobuf st = [] \<and> rows_on_disk st = appended (trace st) \<and> last (trace st) = Flush
        \<and> length (appended (trace st)) = length (yielded (trace st))"
    by (simp add: appended_append yielded_append)
qed

text \<open>The first event of a run of two events, and the whole run.\<close>

theorem flush_precedes_append_witness:
  "wrec init_state = RecoEvent_dflt
   \<and> loop_body ex_env_two ex_no_geometry init_state
       = Inr (init_state\<lparr>iobuf := [ex_row], trace := [Flush, Append ex_row]\<rparr>)
   \<and> row_of ex_env_two ex_no_geometry = Inr ex_row
   \<and> main ex_env_two ex_args =
       Returned \<lparr>wrec = RecoEvent_dflt, iobuf = [],
                 rows_on_disk = [ex_row, ex_row\<lparr>event_id := 8\<rparr>],
                 inspections = 3,
                 trace = [Yield ex_no_geometry, Flush, Append ex_row, InspectEvent False,
                          Yield ex_event_b, Flush, Append (ex_row\<lparr>event_id := 8\<rparr>),
                          InspectEvent False, InspectFile False, Flush],
                 stdout = [''Job done!'']\<rparr>"
  using flush_precedes_append [of init_state ex_env_two ex_no_geometry
      "init_state\<lparr>iobuf := [ex_row], trace := [Flush, Append ex_row]\<rparr>" ex_args
      "\<lparr>wrec = RecoEvent_dflt, iobuf = [],
                 rows_on_disk = [ex_row, ex_row\<lparr>event_id := 8\<rparr>],
                 inspections = 3,
                 trace = [Yield ex_no_geometry, Flush, Append ex_row, InspectEvent False,
                          Yield ex_event_b, Flush, Append (ex_row\<lparr>event_id := 8\<rparr>),
                          InspectEvent False, InspectFile False, Flush],
                 stdout = [''Job done!'']\<rparr>"]
    ex_main_two ex_loop_body
  by (simp add: init_state_def)

text \<open>
  C7 as stated fails: after the body of the first event (a flush, then the append) the row is
  in the buffer and storage is empty; the inspection writes nothing, and the next action of
  the run is the next event. No flush lies between an append and the following event.
\<close>

theorem flush_after_append_counterexample:
  "\<not> isl (loop_body ex_env_two ex_no_geometry init_state)
   \<and> trace (projr (loop_body ex_env_two ex_no_geometry init_state)) = [Flush, Append ex_row]
   \<and> iobuf (projr (loop_body ex_env_two ex_no_geometry init_state)) = [ex_row]
   \<and> rows_on_disk (projr (loop_body ex_env_two ex_no_geometry init_state)) = []
   \<and> main ex_env_two ex_args =
       Returned \<lparr>wrec = RecoEvent_dflt, iobuf = [],
                 rows_on_disk = [ex_row, ex_row\<lparr>event_id := 8\<rparr>],
                 inspections = 3,
                 trace = [Yield ex_no_geometry, Flush, Append ex_row, InspectEvent False,
                          Yield ex_event_b, Flush, Append (ex_row\<lparr>event_id := 8\<rparr>),
                          InspectEvent False, InspectFile False, Flush],
                 stdout = [''Job done!'']\<rparr>"
  using ex_main_two ex_loop_body by (simp add: init_state_def)

section \<open>Cancellation\<close>

text \<open>
  C8, as the code has it: in a run that returns, whenever the stop flag is set, the flag is
  read at two places only, after the row of an event has been appended and after the loop over
  a file has ended; every read gives the value of the flag at that moment. A new event is taken
  only after a read that gave false: from the first read that gave true the run does nothing
  but the read of the outer loop and the last flush. When the run returns the buffer is empty,
  and storage holds one complete row for each event taken, in order, and no other row. A run
  that an exception ends was not stopped by the flag, every read of which gave false, and has
  no last flush: its trace is empty or ends with the event whose row raised, and the rows
  appended are those in storage followed by those still in the buffer.
\<close>

theorem cancellation_stops_cleanly:
  "(main E a = Returned st \<longrightarrow>
      iobuf st = [] \<and> last (trace st) = Flush
      \<and> rows_on_disk st = appended (trace st)
      \<and> map Inr (rows_on_disk st) = map (row_of E) (yielded (trace st))
      \<and> (\<forall>i < length (inspected (trace st)). inspected (trace st) ! i = stop_flag E i)
      \<and> successively may_follow (trace st)
      \<and> after_stop (trace st)
          \<in> {[], [InspectEvent True, InspectFile True, Flush], [InspectFile True, Flush]})
   \<and> (main E a = Raised err st \<longrightarrow>
        (\<forall>b \<in> set (inspected (trace st)). \<not> b)
        \<and> (trace st = [] \<or> (\<exists>p. last (trace st) = Yield p \<and> row_of E p = Inl err))
        \<and> rows_on_disk st @ iobuf st = appended (trace st))"
proof (rule conjI; rule impI)
  assume ret: "main E a = Returned st"
  from main_returned [OF ret] obtain seg where m:
      "trace st = seg @ [Flush]" "iobuf st = []" "rows_on_disk st = appended seg"
      "map Inr (appended seg) = map (row_of E) (yielded seg)"
      "\<forall>i < length (inspected seg). inspected seg ! i = stop_flag E i"
      "successively may_follow (seg @ [Flush])"
      "after_stop (seg @ [Flush])
         \<in> {[], [InspectEvent True, InspectFile True, Flush], [InspectFile True, Flush]}"
    by blast
  have "inspected (trace st) = inspected seg"
    by (simp add: m(1) inspected_append)
  with m show "iobuf st = [] \<and> last (trace st) = Flush
      \<and> rows_on_disk st = appended (trace st)
      \<and> map Inr (rows_on_disk st) = map (row_of E) (yielded (trace st))
      \<and> (\<forall>i < length (inspected (trace st)). inspected (trace st) ! i = stop_flag E i)
      \<and> successively may_follow (trace st)
      \<and> after_stop (trace st)
          \<in> {[], [InspectEvent True, InspectFile True, Flush], [InspectFile True, Flush]}"
    by (simp add: appended_append yielded_append)
next
  assume rai: "main E a = Raised err st"
  from main_raised [OF rai] consider
      (none) "trace st = []" "rows_on_disk st = []" "iobuf st = []"
    | (some) seg p where
        "trace st = seg @ [Yield p]"
        "row_of E p = Inl err"
        "rows_on_disk st @ iobuf st = appended seg"
        "\<forall>b \<in> set (inspected seg). \<not> b"
    by blast
  then show "(\<forall>b \<in> set (inspected (trace st)). \<not> b)
        \<and> (trace st = [] \<or> (\<exists>p. last (trace st) = Yield p \<and> row_of E p = Inl err))
        \<and> rows_on_disk st @ iobuf st = appended (trace st)"
  proof cases
    case none
    then show ?thesis by simp
  next
    case some
    then show ?thesis
      by (simp add: inspected_append appended_append)
  qed
qed

text \<open>
  The flag set during the first of two events: one row, then the run stops. The flag set during
  the second of two events, which has no model for its camera: the one read gave false.
\<close>

theorem cancellation_stops_cleanly_witness:
  "main ex_env_stop ex_args =
     Returned \<lparr>wrec = RecoEvent_dflt, iobuf = [],
               rows_on_disk = [ex_row],
               inspections = 2,
               trace = [Yield ex_no_geometry, Flush, Append ex_row, InspectEvent True,
                        InspectFile True, Flush],
               stdout = [''Job done!'']\<rparr>
   \<and> prepare_event ex_env_stop ''data/gamma_run1.simtel.gz'' = [ex_no_geometry, ex_event_b]
   \<and> row_of ex_env_stop ex_no_geometry = Inr ex_row
   \<and> after_stop [Yield ex_no_geometry, Flush, Append ex_row, InspectEvent True,
                  InspectFile True, Flush] = [InspectEvent True, InspectFile True, Flush]
   \<and> main ex_env_abort_stop ex_args =
       Raised KeyError \<lparr>wrec = RecoEvent_dflt, iobuf = [ex_row], rows_on_disk = [],
                         inspections = 1,
                         trace = [Yield ex_no_geometry, Flush, Append ex_row, InspectEvent False,
                                  Yield ex_one_tel],
                         stdout = []\<rparr>
   \<and> row_of ex_env_abort_stop ex_one_tel = Inl KeyError"
proof -
  define st1 where "st1 = \<lparr>wrec = RecoEvent_dflt, iobuf = [],
               rows_on_disk = [ex_row],
               inspections = 2,
               trace = [Yield ex_no_geometry, Flush, Append ex_row, InspectEvent True,
                        InspectFile True, Flush],
               stdout = [''Job done!'']\<rparr>"
  define st2 where "st2 = \<lparr>wrec = RecoEvent_dflt, iobuf = [ex_row], rows_on_disk = [],
                         inspections = 1,
                         trace = [Yield ex_no_geometry, Flush, Append ex_row, InspectEvent False,
                                  Yield ex_one_tel],
                         stdout = []\<rparr>"
  have r1: "main ex_env_stop ex_args = Returned st1"
    unfolding st1_def by (rule ex_main_stop)
  have r2: "main ex_env_abort_stop ex_args = Raised KeyError st2"
    unfolding st2_def by (rule ex_main_abort_stop_run)
  have y1: "yielded (trace st1) = [ex_no_geometry]" and d1: "rows_on_disk st1 = [ex_row]"
    by (simp_all add: st1_def)
  have t2: "trace st2 \<noteq> []" "last (trace st2) = Yield ex_one_tel"
    by (simp_all add: st2_def)
  from cancellation_stops_cleanly [of ex_env_stop ex_args st1 KeyError] r1
  have "map Inr (rows_on_disk st1) = map (row_of ex_env_stop) (yielded (trace st1))"
    by blast
  then have a: "row_of ex_env_stop ex_no_geometry = Inr ex_row"
    unfolding y1 d1 by simp
  from cancellation_stops_cleanly [of ex_env_abort_stop ex_args st2 KeyError] r2 t2
  have b: "row_of ex_env_abort_stop ex_one_tel = Inl KeyError"
    by auto
  have c: "prepare_event ex_env_stop ''data/gamma_run1.simtel.gz'' = [ex_no_geometry, ex_event_b]"
    by (simp add: ex_env_stop_def ex_env_two_def ex_env_def)
  from a b c r1 r2 show ?thesis
    by (simp add: st1_def st2_def after_stop_def is_stop_def)
qed

text \<open>
  C8 as stated fails: a run in which the flag is set need not return. With the flag set during
  the second of two events, whose telescope has a camera without a model, the one read of the
  flag gives false, the second event is taken and its lookup raises \<open>KeyError\<close>: the run ends
  without the last flush, the row of the first event is in the buffer and storage is empty.
\<close>

theorem cancellation_counterexample:
  "stop_from ex_env_abort_stop = Some 1
   \<and> main ex_env_abort_stop ex_args =
       Raised KeyError \<lparr>wrec = RecoEvent_dflt, iobuf = [ex_row], rows_on_disk = [],
                         inspections = 1,
                         trace = [Yield ex_no_geometry, Flush, Append ex_row, InspectEvent False,
                                  Yield ex_one_tel],
                         stdout = []\<rparr>
   \<and> last [Yield ex_no_geometry, Flush, Append ex_row, InspectEvent False, Yield ex_one_tel]
       \<noteq> Flush"
  using ex_main_abort_stop_run
  by (simp add: ex_env_abort_stop_def)

section \<open>Rounding\<close>

lemma rne_of_int: "rne (of_int n) = n"
  by (simp add: rne_def)

lemma rne_ge: "of_int m \<le> z \<Longrightarrow> m \<le> rne z"
proof -
  assume "of_int m \<le> z"
  then have "m \<le> \<lfloor>z\<rfloor>" by (simp add: le_floor_iff)
  then show ?thesis by (auto simp: rne_def Let_def)
qed

lemma rne_le: "z \<le> of_int m \<Longrightarrow> rne z \<le> m"
proof -
  assume a: "z \<le> of_int m"
  show ?thesis
  proof (cases "z = of_int \<lfloor>z\<rfloor>")
    case True
    then have "rne z = \<lfloor>z\<rfloor>" by (simp add: rne_def)
    moreover have "\<lfloor>z\<rfloor> \<le> m" using a by (simp add: floor_le_iff)
    ultimately show ?thesis by simp
  next
    case False
    then have "of_int \<lfloor>z\<rfloor> < z" by linarith
    with a have "of_int \<lfloor>z\<rfloor> < (of_int m :: real)" by linarith
    then have "\<lfloor>z\<rfloor> < m" by simp
    then show ?thesis by (auto simp: rne_def Let_def)
  qed
qed

lemma abs_rne_le: "\<bar>z\<bar> \<le> of_int m \<Longrightarrow> \<bar>rne z\<bar> \<le> m"
proof -
  assume a: "\<bar>z\<bar> \<le> of_int m"
  then have "z \<le> of_int m" "of_int (- m) \<le> z" by (simp_all add: abs_le_iff)
  then have "rne z \<le> m" "- m \<le> rne z" by (auto intro: rne_le rne_ge)
  then show ?thesis by simp
qed

lemma abs_rne_ge: "of_int m \<le> \<bar>z\<bar> \<Longrightarrow> m \<le> \<bar>rne z\<bar>"
proof (cases "0 \<le> z")
  case True
  assume "of_int m \<le> \<bar>z\<bar>"
  with True have "of_int m \<le> z" by simp
  then have "m \<le> rne z" by (rule rne_ge)
  then show ?thesis by simp
next
  case False
  assume "of_int m \<le> \<bar>z\<bar>"
  with False have "z \<le> of_int (- m)" by simp
  then have "rne z \<le> - m" by (rule rne_le)
  then show ?thesis by simp
qed


lemma powr2_add: "(2::real) powr (of_int (a + b)) = 2 powr (of_int a) * 2 powr (of_int b)"
  by (simp add: powr_add)

lemma ieee_round_idem:
  assumes r: "ieee_round p emin emax x = Fin r" and p: "0 < p"
  shows "ieee_round p emin emax r = Fin r"
proof (cases "r = 0")
  case True
  then show ?thesis by (simp add: ieee_round_def)
next
  case r0: False
  then have x0: "x \<noteq> 0" using r by (auto simp: ieee_round_def)
  define l where "l = \<lfloor>log 2 \<bar>x\<bar>\<rfloor>"
  define e where "e = max l emin"
  define q :: real where "q = 2 powr (of_int (e - int p + 1))"
  define n where "n = rne (x / q)"
  have qpos: "0 < q" by (simp add: q_def)
  from r x0 have rn: "r = of_int n * q" and fin: "\<bar>r\<bar> < 2 powr (of_int (emax + 1))"
    by (auto simp: ieee_round_def Let_def l_def e_def q_def n_def split: if_splits)
  have n0: "n \<noteq> 0" using r0 rn by auto
  have absr: "\<bar>r\<bar> = of_int \<bar>n\<bar> * q" using qpos by (simp add: rn abs_mult)
  have l_le: "2 powr (of_int l) \<le> \<bar>x\<bar>" and l_gt: "\<bar>x\<bar> < 2 powr (of_int l + 1)"
    using floor_log_eq_powr_iff [of "\<bar>x\<bar>" 2 l] x0 by (simp_all add: l_def)
  have qp: "q * 2 ^ p = 2 powr (of_int (e + 1))"
  proof -
    have "2 powr (of_int (e + 1)) = 2 powr (of_int ((e - int p + 1) + int p))" by simp
    also have "\<dots> = q * 2 ^ p"
      unfolding powr2_add q_def by (simp add: powr_realpow)
    finally show ?thesis by simp
  qed
  have qp1: "q * 2 ^ (p - 1) = 2 powr (of_int e)"
  proof -
    have "2 powr (of_int e) = 2 powr (of_int ((e - int p + 1) + int (p - 1)))"
      using p by (simp add: of_nat_diff)
    also have "\<dots> = q * 2 ^ (p - 1)"
      unfolding powr2_add q_def by (simp add: powr_realpow)
    finally show ?thesis by simp
  qed
  have "\<bar>x\<bar> < 2 powr (of_int (e + 1))"
  proof -
    have "(2::real) powr (of_int l + 1) \<le> 2 powr (of_int (e + 1))"
      by (simp add: e_def)
    with l_gt show ?thesis by linarith
  qed
  then have "\<bar>x\<bar> < q * 2 ^ p" by (simp add: qp)
  then have "\<bar>x / q\<bar> < 2 ^ p"
    using qpos by (simp add: abs_divide field_simps)
  then have "\<bar>x / q\<bar> \<le> of_int (2 ^ p)" by simp
  then have n_le: "\<bar>n\<bar> \<le> 2 ^ p"
    unfolding n_def by (rule abs_rne_le)
  have integer: "ieee_round p emin emax r = Fin r"
    if "max \<lfloor>log 2 \<bar>r\<bar>\<rfloor> emin = e' " and "r = of_int k * 2 powr (of_int (e' - int p + 1))" for e' k
  proof -
    have "r / 2 powr (of_int (e' - int p + 1)) = of_int k"
      using that(2) by simp
    then have "of_int (rne (r / 2 powr (of_int (e' - int p + 1)))) * 2 powr (of_int (e' - int p + 1)) = r"
      using that(2) by (simp add: rne_of_int)
    with r0 fin that(1) show ?thesis
      by (simp add: ieee_round_def Let_def)
  qed
  show ?thesis
  proof (cases "\<bar>n\<bar> = 2 ^ p")
    case True
    then have ar: "\<bar>r\<bar> = 2 powr (of_int (e + 1))"
      using absr qp by (simp add: mult.commute)
    then have "\<lfloor>log 2 \<bar>r\<bar>\<rfloor> = e + 1" by simp
    then have e': "max \<lfloor>log 2 \<bar>r\<bar>\<rfloor> emin = e + 1"
      by (simp add: e_def)
    have q': "2 powr (of_int (e + 1 - int p + 1)) = 2 * q"
    proof -
      have "2 powr (of_int (e + 1 - int p + 1)) = 2 powr (of_int ((e - int p + 1) + 1))" by (simp add: algebra_simps)
      also have "\<dots> = q * 2" unfolding powr2_add q_def by simp
      finally show ?thesis by simp
    qed
    obtain p' where p': "p = Suc p'" using p by (cases p) auto
    from True have "n = 2 ^ p \<or> n = - (2 ^ p)" by (auto simp: abs_if split: if_splits)
    then have "n = 2 * (n div 2)" using p' by auto
    then have "r = of_int (n div 2) * (2 * q)"
      using rn by (metis mult.assoc mult.commute of_int_mult of_int_numeral)
    then show ?thesis
      using integer [OF e'] q' by simp
  next
    case False
    with n_le have n_lt: "\<bar>n\<bar> < 2 ^ p" by simp
    then have "(of_int \<bar>n\<bar> :: real) < 2 ^ p"
      by (metis of_int_less_iff of_int_numeral of_int_power)
    then have r_lt: "\<bar>r\<bar> < 2 powr (of_int (e + 1))"
      using absr qp qpos by (metis mult.commute mult_strict_left_mono)
    have apos: "0 < \<bar>r\<bar>" using r0 by simp
    have l'_le: "\<lfloor>log 2 \<bar>r\<bar>\<rfloor> \<le> e"
    proof -
      have "log 2 \<bar>r\<bar> < of_int (e + 1)"
        using r_lt apos by (simp add: log_less_iff)
      then have "\<lfloor>log 2 \<bar>r\<bar>\<rfloor> < e + 1" by (simp only: floor_less_iff)
      then show ?thesis by simp
    qed
    have e': "max \<lfloor>log 2 \<bar>r\<bar>\<rfloor> emin = e"
    proof (cases "emin < l")
      case True
      then have el: "e = l" by (simp add: e_def)
      from l_le have "q * 2 ^ (p - 1) \<le> \<bar>x\<bar>" unfolding qp1 el .
      then have "2 ^ (p - 1) \<le> \<bar>x / q\<bar>"
        using qpos by (simp add: abs_divide field_simps)
      then have "of_int (2 ^ (p - 1)) \<le> \<bar>x / q\<bar>" by simp
      then have "2 ^ (p - 1) \<le> \<bar>n\<bar>" unfolding n_def by (rule abs_rne_ge)
      then have "(2 ^ (p - 1) :: real) \<le> of_int \<bar>n\<bar>"
        by (metis of_int_le_iff of_int_numeral of_int_power)
      then have "q * 2 ^ (p - 1) \<le> \<bar>r\<bar>"
        using absr qpos by (simp add: mult.commute)
      then have "2 powr (of_int e) \<le> \<bar>r\<bar>" unfolding qp1 .
      then have "of_int e \<le> log 2 \<bar>r\<bar>" using apos by (simp add: le_log_iff)
      then have "e \<le> \<lfloor>log 2 \<bar>r\<bar>\<rfloor>" by (simp add: le_floor_iff)
      with l'_le True el show ?thesis by simp
    next
      case False
      then have "e = emin" by (simp add: e_def)
      with l'_le show ?thesis by simp
    qed
    show ?thesis
      using integer [OF e', of n] rn by (simp add: q_def)
  qed
qed

lemma is_float64_binary64: "is_float64 (binary64 x)"
proof (cases "binary64 x")
  case (Fin r)
  then have "binary64 r = Fin r"
    unfolding binary64_def by (rule ieee_round_idem) simp
  with Fin show ?thesis by (simp add: is_float64_def)
qed (simp_all add: is_float64_def)

lemma is_float64_special: "is_float64 PInf" "is_float64 NInf" "is_float64 NaN"
  by (simp_all add: is_float64_def)

lemma is_float64_fmul: "is_float64 (fmul x y)"
  by (cases x; cases y)
     (simp_all add: fmul_def is_float64_binary64 is_float64_special inf_of_sign_def)

lemma fadd_zero_left: "is_float64 x \<Longrightarrow> fadd (Fin 0) x = x"
  by (cases x) (simp_all add: fadd_def is_float64_def)


section \<open>One contributing telescope\<close>

lemma ieee_round_at:
  assumes "x \<noteq> 0" "2 powr (of_int e) \<le> \<bar>x\<bar>" "\<bar>x\<bar> < 2 powr (of_int e + 1)" "emin \<le> e"
  shows "ieee_round p emin emax x =
           (let q = 2 powr (of_int (e - int p + 1)); r = of_int (rne (x / q)) * q
            in if 2 powr (of_int (emax + 1)) \<le> \<bar>r\<bar>
               then (if 0 < x then PInf else NInf) else Fin r)"
proof -
  have "\<lfloor>log 2 \<bar>x\<bar>\<rfloor> = e"
    using assms(1-3) by (simp add: floor_log_eq_powr_iff)
  with assms(1,4) show ?thesis
    by (simp add: ieee_round_def max_def)
qed

lemma rne_error: "\<bar>of_int (rne y) - y\<bar> \<le> 1 / 2"
proof -
  have "of_int \<lfloor>y\<rfloor> \<le> y" "y < of_int \<lfloor>y\<rfloor> + 1" by linarith+
  then show ?thesis
    by (auto simp: rne_def Let_def)
qed

lemma binary64_rel_error:
  assumes "2 powr (- 1022) \<le> \<bar>x\<bar>" and "binary64 x = Fin r"
  shows "\<bar>r - x\<bar> \<le> \<bar>x\<bar> / 2 ^ 53"
proof -
  have x0: "x \<noteq> 0" using assms(1) by (auto simp: less_le_trans [OF _ assms(1)])
  define e where "e = \<lfloor>log 2 \<bar>x\<bar>\<rfloor>"
  have pos: "0 < \<bar>x\<bar>" using x0 by simp
  have e_le: "2 powr (of_int e) \<le> \<bar>x\<bar>" and e_gt: "\<bar>x\<bar> < 2 powr (of_int e + 1)"
    using floor_log_eq_powr_iff [of "\<bar>x\<bar>" 2 e] pos by (simp_all add: e_def)
  have "- 1022 \<le> log 2 \<bar>x\<bar>"
    using assms(1) pos by (simp add: le_log_iff)
  then have emin: "- 1022 \<le> e"
    unfolding e_def by (simp add: le_floor_iff)
  define q :: real where "q = 2 powr (of_int (e - int 53 + 1))"
  have qpos: "0 < q" by (simp add: q_def)
  have q2: "q = 2 powr (of_int e) / 2 ^ 52"
  proof -
    have "of_int (e - int 53 + 1) = of_int e + (- 52 :: real)" by simp
    then have "q = 2 powr (of_int e) * 2 powr (- 52)"
      unfolding q_def by (simp only: powr_add)
    moreover have "(2::real) powr (- 52) = 1 / 2 ^ 52"
      by (simp add: powr_minus inverse_eq_divide)
    ultimately show ?thesis by simp
  qed
  from ieee_round_at [OF x0 e_le e_gt emin, of 53 1023] assms(2)
  have r: "r = of_int (rne (x / q)) * q"
    by (auto simp: binary64_def q_def Let_def split: if_splits)
  have "\<bar>r - x\<bar> = \<bar>of_int (rne (x / q)) - x / q\<bar> * q"
  proof -
    have "r - x = (of_int (rne (x / q)) - x / q) * q"
      using qpos by (simp add: r field_simps)
    then show ?thesis using qpos by (simp add: abs_mult)
  qed
  also have "\<dots> \<le> (1 / 2) * q"
    using rne_error [of "x / q"] qpos by (intro mult_right_mono) simp_all
  also have "\<dots> = 2 powr (of_int e) / 2 ^ 53"
    by (simp add: q2)
  also have "\<dots> \<le> \<bar>x\<bar> / 2 ^ 53"
    using e_le by (simp add: divide_right_mono)
  finally show ?thesis .
qed


lemma fusion_single:
  "binary64 w = Fin w \<Longrightarrow> fusion [Fin w] [x] = fdiv (fmul (Fin w) x) (Fin w)"
proof -
  assume w: "binary64 w = Fin w"
  have "np_sum [fmul (Fin w) x] = fmul (Fin w) x"
    by (simp add: np_sum_def pairwise_sum_short fadd_zero_left is_float64_fmul)
  moreover have "py_sum [Fin w] = Fin w"
    using w by (simp add: py_sum_def fadd_def)
  ultimately show ?thesis by (simp add: fusion_def)
qed

lemma fusion_single_finite:
  assumes "0 < w" and "binary64 w = Fin w" and "fusion [Fin w] [Fin v] = Fin f"
  shows "\<exists>p. binary64 (w * v) = Fin p \<and> binary64 (p / w) = Fin f"
proof (cases "binary64 (w * v)")
  case (Fin p)
  with assms show ?thesis
    by (simp add: fusion_single fmul_def fdiv_def)
next
  case PInf
  with assms show ?thesis
    by (simp add: fusion_single fmul_def fdiv_def inf_of_sign_def)
next
  case NInf
  with assms show ?thesis
    by (simp add: fusion_single fmul_def fdiv_def inf_of_sign_def)
next
  case NaN
  with assms show ?thesis
    by (simp add: fusion_single fmul_def fdiv_def)
qed

lemma fusion_single_error:
  assumes w: "0 < w" and fw: "binary64 w = Fin w" and n1: "2 powr (- 1022) \<le> \<bar>w * v\<bar>" and n2: "2 powr (- 1021) \<le> \<bar>v\<bar>"
    and f: "fusion [Fin w] [Fin v] = Fin f"
  shows "\<bar>f - v\<bar> \<le> (1 / 2 ^ 52 + 1 / 2 ^ 106) * \<bar>v\<bar>"
proof -
  define u :: real where "u = 1 / 2 ^ 53"
  have u: "0 < u" "u < 1" "2 * (1 - u) \<ge> 1" by (simp_all add: u_def)
  from fusion_single_finite [OF w fw f] obtain p where
    p: "binary64 (w * v) = Fin p" and q: "binary64 (p / w) = Fin f" by blast
  have e1: "\<bar>p - w * v\<bar> \<le> u * \<bar>w * v\<bar>"
    using binary64_rel_error [OF n1 p] by (simp add: u_def)
  have d1: "\<bar>p / w - v\<bar> \<le> u * \<bar>v\<bar>"
  proof -
    have "p / w - v = (p - w * v) / w" using w by (simp add: field_simps)
    then have "\<bar>p / w - v\<bar> = \<bar>p - w * v\<bar> / w" using w by (simp add: abs_divide)
    also have "\<dots> \<le> (u * \<bar>w * v\<bar>) / w"
      using e1 w by (simp add: divide_right_mono)
    also have "\<dots> = u * \<bar>v\<bar>" using w by (simp add: abs_mult)
    finally show ?thesis .
  qed
  have lo: "(1 - u) * \<bar>v\<bar> \<le> \<bar>p / w\<bar>"
  proof -
    have "\<bar>v\<bar> \<le> \<bar>p / w\<bar> + \<bar>p / w - v\<bar>" by linarith
    with d1 have "\<bar>v\<bar> - u * \<bar>v\<bar> \<le> \<bar>p / w\<bar>" by linarith
    then show ?thesis by (simp only: left_diff_distrib mult_1)
  qed
  have hi: "\<bar>p / w\<bar> \<le> (1 + u) * \<bar>v\<bar>"
  proof -
    have "\<bar>p / w\<bar> \<le> \<bar>v\<bar> + \<bar>p / w - v\<bar>" by linarith
    with d1 have "\<bar>p / w\<bar> \<le> \<bar>v\<bar> + u * \<bar>v\<bar>" by linarith
    then show ?thesis by (simp only: distrib_right mult_1)
  qed
  have two: "(2::real) powr (- 1021) = 2 * 2 powr (- 1022)"
  proof -
    have "(2::real) powr (- 1021) = 2 powr (1 + (- 1022))" by simp
    also have "\<dots> = 2 powr 1 * 2 powr (- 1022)" by (simp only: powr_add)
    finally show ?thesis by simp
  qed
  have n3: "2 powr (- 1022) \<le> \<bar>p / w\<bar>"
  proof -
    have "2 powr (- 1022) \<le> (1 - u) * (2 * 2 powr (- 1022))"
    proof -
      have "1 * 2 powr (- 1022) \<le> (2 * (1 - u)) * 2 powr (- 1022 :: real)"
        using u(3) by (intro mult_right_mono) simp_all
      then show ?thesis by (simp add: algebra_simps)
    qed
    also have "\<dots> \<le> (1 - u) * \<bar>v\<bar>"
      using n2 u(2) unfolding two by (intro mult_left_mono) simp_all
    also have "\<dots> \<le> \<bar>p / w\<bar>" by (rule lo)
    finally show ?thesis .
  qed
  have e2: "\<bar>f - p / w\<bar> \<le> u * \<bar>p / w\<bar>"
    using binary64_rel_error [OF n3 q] by (simp add: u_def)
  also have "\<dots> \<le> u * ((1 + u) * \<bar>v\<bar>)"
    using hi u(1) by (intro mult_left_mono) simp_all
  finally have d2: "\<bar>f - p / w\<bar> \<le> u * ((1 + u) * \<bar>v\<bar>)" .
  have "\<bar>f - v\<bar> \<le> \<bar>f - p / w\<bar> + \<bar>p / w - v\<bar>" by linarith
  also have "\<dots> \<le> u * ((1 + u) * \<bar>v\<bar>) + u * \<bar>v\<bar>" using d1 d2 by linarith
  also have "\<dots> = (1 / 2 ^ 52 + 1 / 2 ^ 106) * \<bar>v\<bar>"
    by (simp add: u_def algebra_simps)
  finally show ?thesis .
qed

lemma fusion_single_exact:
  assumes "0 < w" "binary64 w = Fin w" "binary64 (w * v) = Fin (w * v)" "binary64 v = Fin v"
  shows "fusion [Fin w] [Fin v] = Fin v"
  using assms by (simp add: fusion_single fmul_def fdiv_def)

lemma fusion_single_special:
  assumes "0 < w" "binary64 w = Fin w"
  shows "fusion [Fin w] [NaN] = NaN" "fusion [Fin w] [PInf] = PInf" "fusion [Fin w] [NInf] = NInf"
  using assms by (simp_all add: fusion_single fmul_def fdiv_def inf_of_sign_def)

lemma binary64_at:
  assumes "x \<noteq> 0" "2 powr (of_int e) \<le> \<bar>x\<bar>" "\<bar>x\<bar> < 2 powr (of_int e + 1)" "- 1022 \<le> e"
    and "r = of_int (rne (x / 2 powr (of_int (e - 52)))) * 2 powr (of_int (e - 52))"
    and "\<bar>r\<bar> < 2 powr 1024"
  shows "binary64 x = Fin r"
  using ieee_round_at [OF assms(1-4), of 53 1023] assms(5,6)
  by (simp add: binary64_def Let_def)

lemma ex_product: "binary64 (3 * ex_tenth) = Fin (5404319552844596 / 18014398509481984)"
  by (rule binary64_at [where e = "- 2"])
     (simp_all add: ex_tenth_def powr_minus rne_def Let_def)

lemma ex_quotient:
  "binary64 (5404319552844596 / 18014398509481984 / 3) = Fin (7205759403792795 / 72057594037927936)"
  by (rule binary64_at [where e = "- 4"])
     (simp_all add: powr_minus rne_def Let_def)

lemma ex_three: "binary64 3 = Fin 3"
  by (rule binary64_at [where e = 1])
     (simp_all add: powr_minus rne_def Let_def)

lemma ex_fusion: "fusion [Fin 3] [Fin ex_tenth] = Fin (7205759403792795 / 72057594037927936)"
proof -
  have "fusion [Fin 3] [Fin ex_tenth] = fdiv (binary64 (3 * ex_tenth)) (Fin 3)"
    by (simp add: fusion_single ex_three fmul_def)
  also have "\<dots> = binary64 (5404319552844596 / 18014398509481984 / 3)"
    unfolding ex_product by (simp add: fdiv_def)
  also have "\<dots> = Fin (7205759403792795 / 72057594037927936)"
    by (rule ex_quotient)
  finally show ?thesis .
qed

lemma ex_estimate_energy:
  "estimate_energy ex_env_tenth ex_single hmax [(1, ex_moments3)] = Inr ([Fin ex_tenth], [Fin 3])"
  by (simp add: lookup_def ex_env_tenth_def ex_env_def ex_single_def ex_one_tel_def
      ex_no_geometry_def ex_event_def ex_moments3_def)

text \<open>
  C4 as stated fails: with one telescope of intensity 3 whose energy estimate is the
  \<open>float64\<close> nearest to 0.1, the product rounds to 0.30000000000000004 and the quotient to
  0.10000000000000002, one unit in the last place above the estimate.
\<close>

theorem single_contributor_counterexample:
  "hillas_dict ex_single = Some [(1, ex_moments3)]
   \<and> intensity ex_moments3 = Fin 3
   \<and> reco_result ex_single = Some ex_fit
   \<and> estimate_energy ex_env_tenth ex_single (fit_h_max ex_fit) [(1, ex_moments3)]
       = Inr ([Fin (3602879701896397 / 36028797018963968)], [Fin 3])
   \<and> fusion [Fin 3] [Fin (3602879701896397 / 36028797018963968)]
       = Fin (7205759403792795 / 72057594037927936)
   \<and> Fin (7205759403792795 / 72057594037927936) \<noteq> Fin (3602879701896397 / 36028797018963968)"
  using ex_estimate_energy [of "fit_h_max ex_fit"] ex_fusion
  by (simp add: ex_tenth_def ex_single_def ex_one_tel_def ex_no_geometry_def ex_moments3_def)

text \<open>
  C4, as the code has it: for an event with exactly one contributing telescope of positive
  intensity \<open>w\<close>, a \<open>float64\<close> number, the fused energy and the fused score are the fusion of that telescope's
  estimate alone, which is the estimate up to the two roundings of \<open>(w * v) / w\<close>. When
  neither the product nor the quotient leaves the normal range of \<open>float64\<close>, the fused value
  differs from the estimate \<open>v\<close> by at most \<open>(2 ^ -52 + 2 ^ -106) * \<bar>v\<bar>\<close>; it equals the
  estimate when the product \<open>w * v\<close> is computed without rounding, and when the estimate is an
  infinity or NaN.
\<close>

theorem single_contributor_fusion:
  assumes "hillas_dict p = Some [(t, m)]" and "intensity m = Fin w" and "0 < w"
    and "binary64 w = Fin w" and "row_of E p = Inr r"
  shows "\<exists>fit energy sc.
           reco_result p = Some fit
           \<and> estimate_energy E p (fit_h_max fit) [(t, m)] = Inr ([energy], [Fin w])
           \<and> estimate_score E p (fusion [Fin w] [energy]) (fit_h_max fit) [(t, m)]
               = Inr ([sc], [Fin w])
           \<and> reco_energy r = to_float32 (fusion [Fin w] [energy])
           \<and> score r = to_float32 (fusion [Fin w] [sc])
           \<and> (\<forall>v f. 2 powr (- 1022) \<le> \<bar>w * v\<bar> \<and> 2 powr (- 1021) \<le> \<bar>v\<bar>
                    \<and> fusion [Fin w] [Fin v] = Fin f
                  \<longrightarrow> \<bar>f - v\<bar> \<le> (1 / 2 ^ 52 + 1 / 2 ^ 106) * \<bar>v\<bar>)
           \<and> (\<forall>v. binary64 (w * v) = Fin (w * v) \<and> binary64 v = Fin v
                  \<longrightarrow> fusion [Fin w] [Fin v] = Fin v)
           \<and> fusion [Fin w] [NaN] = NaN \<and> fusion [Fin w] [PInf] = PInf
           \<and> fusion [Fin w] [NInf] = NInf"
proof -
  from assms(5) obtain fit where fit: "reco_result p = Some fit"
    by (cases "reco_result p") (auto simp: row_of_def reconstruct_def)
  let ?hmax = "fit_h_max fit"
  from assms(1,5) fit obtain es ws where e: "estimate_energy E p ?hmax [(t, m)] = Inr (es, ws)"
    by (cases "estimate_energy E p ?hmax [(t, m)]") (auto simp: row_of_def reconstruct_def)
  with assms(1,5) fit obtain ss ws2 where
    s: "estimate_score E p (fusion ws es) ?hmax [(t, m)] = Inr (ss, ws2)"
    by (cases "estimate_score E p (fusion ws es) ?hmax [(t, m)]")
       (auto simp: row_of_def reconstruct_def)
  from estimate_energy_weights [OF e] assms(2) obtain energy where
    es: "es = [energy]" "ws = [Fin w]"
    by (cases es) auto
  from estimate_score_weights [OF s] assms(2) obtain sc where
    ss: "ss = [sc]" "ws2 = [Fin w]"
    by (cases ss) auto
  have r: "reco_energy r = to_float32 (fusion [Fin w] [energy])"
      "score r = to_float32 (fusion [Fin w] [sc])"
    using assms(1,5) e s es ss fit
    by (auto simp: row_of_def reconstruct_def save_basic_def fill_success_def)
  show ?thesis
    apply (rule exI [of _ fit])
    apply (rule exI [of _ energy])
    apply (rule exI [of _ sc])
    apply (intro conjI allI impI)
    subgoal by (rule fit)
    subgoal using e es by simp
    subgoal using s es ss by simp
    subgoal by (rule r(1))
    subgoal by (rule r(2))
    subgoal for v f using fusion_single_error [OF assms(3,4), of v f] by blast
    subgoal for v using fusion_single_exact [OF assms(3,4), of v] by blast
    subgoal by (rule fusion_single_special(1) [OF assms(3,4)])
    subgoal by (rule fusion_single_special(2) [OF assms(3,4)])
    subgoal by (rule fusion_single_special(3) [OF assms(3,4)])
    done
qed

text \<open>Intensity 3 and the estimate 0.1: the fused value is within the bound, and not equal.\<close>

theorem single_contributor_fusion_witness:
  "hillas_dict ex_single = Some [(1, ex_moments3)] \<and> intensity ex_moments3 = Fin 3
   \<and> binary64 3 = Fin 3
   \<and> \<not> isl (row_of ex_env_tenth ex_single)
   \<and> reco_energy (projr (row_of ex_env_tenth ex_single)) = to_float32 (fusion [Fin 3] [Fin ex_tenth])
   \<and> 2 powr (- 1022) \<le> \<bar>3 * ex_tenth\<bar> \<and> 2 powr (- 1021) \<le> \<bar>ex_tenth\<bar>
   \<and> fusion [Fin 3] [Fin ex_tenth] = Fin (7205759403792795 / 72057594037927936)
   \<and> \<bar>7205759403792795 / 72057594037927936 - ex_tenth\<bar> \<le> (1 / 2 ^ 52 + 1 / 2 ^ 106) * \<bar>ex_tenth\<bar>"
proof -
  have h: "hillas_dict ex_single = Some [(1, ex_moments3)]"
    by (simp add: ex_single_def)
  have i: "intensity ex_moments3 = Fin 3"
    by (simp add: ex_moments3_def)
  have "\<exists>r. row_of ex_env_tenth ex_single = Inr r"
    using h ex_estimate_energy
    by (simp add: row_of_def reconstruct_def lookup_def ex_env_tenth_def ex_env_def ex_single_def
        ex_one_tel_def ex_no_geometry_def ex_event_def)
  then obtain r where r: "row_of ex_env_tenth ex_single = Inr r" ..
  have n: "2 powr (- 1022) \<le> \<bar>3 * ex_tenth\<bar>" "2 powr (- 1021) \<le> \<bar>ex_tenth\<bar>"
    by (simp_all add: ex_tenth_def powr_minus)
  have f: "reco_result ex_single = Some ex_fit"
    by (simp add: ex_single_def ex_one_tel_def ex_no_geometry_def)
  from single_contributor_fusion [OF h i _ ex_three r]
    ex_estimate_energy [of "fit_h_max ex_fit"] ex_fusion n h i r ex_three f
  show ?thesis by auto
qed

section \<open>The energy given to the classifier\<close>

lemma estimate_energy_values:
  assumes "estimate_energy E p hmax hdict = Inr (energy_tel, weight_tel)"
  shows "\<forall>i < length hdict. \<exists>cam_id model impact.
           tel_cam_id (event p) (fst (hdict ! i)) = Some cam_id
           \<and> regressor_model_dict E cam_id = Some model
           \<and> impact_dict p (fst (hdict ! i)) = Some impact
           \<and> energy_tel ! i = model (energy_features E (snd (hdict ! i)) impact hmax)"
  using assms
proof (induction hdict arbitrary: energy_tel weight_tel)
  case Nil
  then show ?case by simp
next
  case (Cons a rest)
  obtain t m where a: "a = (t, m)" by (cases a)
  from Cons.prems a obtain cam_id model impact es ws where
      c: "tel_cam_id (event p) t = Some cam_id"
      and md: "regressor_model_dict E cam_id = Some model"
      and im: "impact_dict p t = Some impact"
      and rest: "estimate_energy E p hmax rest = Inr (es, ws)"
      and st: "energy_tel = model (energy_features E m impact hmax) # es"
    by (auto simp: lookup_Inr split: sum.splits)
  from Cons.IH [OF rest] c md im st a show ?case
    by (auto simp: nth_Cons split: nat.splits)
qed

lemma estimate_score_values:
  assumes "estimate_score E p reco_e hmax hdict = Inr (score_tel, weight_tel)"
  shows "\<forall>i < length hdict. \<exists>cam_id model.
           tel_cam_id (event p) (fst (hdict ! i)) = Some cam_id
           \<and> classifier_model_dict E cam_id = Some model
           \<and> score_tel ! i = model (score_features E reco_e (snd (hdict ! i)) hmax)"
  using assms
proof (induction hdict arbitrary: score_tel weight_tel)
  case Nil
  then show ?case by simp
next
  case (Cons a rest)
  obtain t m where a: "a = (t, m)" by (cases a)
  from Cons.prems a obtain cam_id model ss ws where
      c: "tel_cam_id (event p) t = Some cam_id"
      and md: "classifier_model_dict E cam_id = Some model"
      and rest: "estimate_score E p reco_e hmax rest = Inr (ss, ws)"
      and st: "score_tel = model (score_features E reco_e m hmax) # ss"
    by (auto simp: lookup_Inr split: sum.splits)
  from Cons.IH [OF rest] c md st a show ?case
    by (auto simp: nth_Cons split: nat.splits)
qed

lemma fusion_two:
  "fusion [w1, w2] [e1, e2] =
     fdiv (fadd (Fin 0) (fadd (fadd (Fin 0) (fmul w1 e1)) (fmul w2 e2)))
          (fadd (fadd (Fin 0) w1) w2)"
  by (simp add: fusion_def np_sum_def py_sum_def pairwise_sum_short)

lemma ex_one: "binary64 1 = Fin 1"
  by (rule binary64_at [where e = 0])
     (simp_all add: powr_minus rne_def Let_def)

lemma ex_two: "binary64 2 = Fin 2"
  by (rule binary64_at [where e = 1])
     (simp_all add: powr_minus rne_def Let_def)

lemma ex_three_halves: "binary64 (3 / 2) = Fin (3 / 2)"
  by (rule binary64_at [where e = 0])
     (simp_all add: powr_minus rne_def Let_def)

text \<open>
  The order of the additions matters from eight summands on: \<open>np.sum\<close> adds the eight
  numbers below in pairs and gives 5, the loop of \<open>sum\<close> adds them from the left and gives 0.
\<close>

lemma ex_big_succ: "binary64 (2 ^ 53 + 1) = Fin (2 ^ 53)"
  by (rule binary64_at [where e = 53])
     (simp_all add: powr_minus rne_def Let_def)

lemma ex_big_plus_two: "binary64 (2 ^ 53 + 2) = Fin (2 ^ 53 + 2)"
  by (rule binary64_at [where e = 53])
     (simp_all add: powr_minus rne_def Let_def)

lemma ex_one_minus_big: "binary64 (1 - 2 ^ 53) = Fin (1 - 2 ^ 53)"
  by (rule binary64_at [where e = 52])
     (simp_all add: powr_minus rne_def Let_def)

lemma ex_three_minus_big: "binary64 (3 - 2 ^ 53) = Fin (3 - 2 ^ 53)"
  by (rule binary64_at [where e = 52])
     (simp_all add: powr_minus rne_def Let_def)

lemma ex_five: "binary64 5 = Fin 5"
  by (rule binary64_at [where e = 2])
     (simp_all add: powr_minus rne_def Let_def)

lemma ex_big: "binary64 (2 ^ 53) = Fin (2 ^ 53)"
  by (rule binary64_at [where e = 53])
     (simp_all add: powr_minus rne_def Let_def)

lemma np_sum_in_blocks:
  "np_sum [Fin (2 ^ 53), Fin 1, Fin 1, Fin 1, Fin 1, Fin 1, Fin 1, Fin (- (2 ^ 53))] = Fin 5"
proof -
  let ?xs = "[Fin (2 ^ 53), Fin 1, Fin 1, Fin 1, Fin 1, Fin 1, Fin 1, Fin (- (2 ^ 53))]"
  have f1: "fadd (Fin (2 ^ 53)) (Fin 1) = Fin (2 ^ 53)"
    using ex_big_succ by (simp add: fadd_def)
  have f2: "fadd (Fin 1) (Fin 1) = Fin 2"
    using ex_two by (simp add: fadd_def)
  have f3: "fadd (Fin (2 ^ 53)) (Fin 2) = Fin (2 ^ 53 + 2)"
    using ex_big_plus_two by (simp add: fadd_def)
  have f4: "fadd (Fin 1) (Fin (- (2 ^ 53))) = Fin (1 - 2 ^ 53)"
    using ex_one_minus_big by (simp add: fadd_def)
  have f5: "fadd (Fin 2) (Fin (1 - 2 ^ 53)) = Fin (3 - 2 ^ 53)"
    using ex_three_minus_big by (simp add: fadd_def)
  have f6: "fadd (Fin (2 ^ 53 + 2)) (Fin (3 - 2 ^ 53)) = Fin 5"
    using ex_five by (simp add: fadd_def)
  have f7: "fadd (Fin 0) (Fin 5) = Fin 5"
    using ex_five by (simp add: fadd_def)
  have "pairwise_sum ?xs = block_sum ?xs"
    by (subst pairwise_sum.simps) simp
  also have "\<dots> = combine8 ?xs"
    by (simp add: block_sum_def)
  also have "\<dots> = fadd (fadd (fadd (Fin (2 ^ 53)) (Fin 1)) (fadd (Fin 1) (Fin 1)))
                        (fadd (fadd (Fin 1) (Fin 1)) (fadd (Fin 1) (Fin (- (2 ^ 53)))))"
    by (simp add: combine8_def)
  also have "\<dots> = fadd (fadd (Fin (2 ^ 53)) (Fin 2)) (fadd (Fin 2) (Fin (1 - 2 ^ 53)))"
    by (simp only: f1 f2 f4)
  also have "\<dots> = fadd (Fin (2 ^ 53 + 2)) (Fin (3 - 2 ^ 53))"
    by (simp only: f3 f5)
  also have "\<dots> = Fin 5"
    by (rule f6)
  finally show ?thesis
    by (simp only: np_sum_def f7)
qed

lemma py_sum_from_left:
  "py_sum [Fin (2 ^ 53), Fin 1, Fin 1, Fin 1, Fin 1, Fin 1, Fin 1, Fin (- (2 ^ 53))] = Fin 0"
proof -
  have g0: "fadd (Fin 0) (Fin (2 ^ 53)) = Fin (2 ^ 53)"
    using ex_big by (simp add: fadd_def)
  have g1: "fadd (Fin (2 ^ 53)) (Fin 1) = Fin (2 ^ 53)"
    using ex_big_succ by (simp add: fadd_def)
  have g2: "fadd (Fin (2 ^ 53)) (Fin (- (2 ^ 53))) = Fin 0"
    by (simp add: fadd_def binary64_0)
  have "py_sum [Fin (2 ^ 53), Fin 1, Fin 1, Fin 1, Fin 1, Fin 1, Fin 1, Fin (- (2 ^ 53))]
      = fadd (fadd (fadd (fadd (fadd (fadd (fadd (fadd (Fin 0) (Fin (2 ^ 53))) (Fin 1)) (Fin 1))
          (Fin 1)) (Fin 1)) (Fin 1)) (Fin 1)) (Fin (- (2 ^ 53)))"
    by (simp add: py_sum_def)
  also have "\<dots> = Fin 0"
    by (simp only: g0 g1 g2)
  finally show ?thesis .
qed

lemma ex_fusion_pair: "fusion [Fin 1, Fin 1] [Fin 1, Fin 2] = Fin (3 / 2)"
  by (simp add: fusion_two fmul_def fadd_def fdiv_def ex_one ex_two ex_three ex_three_halves)

lemma ex_pair_energy:
  "estimate_energy ex_env_width ex_pair hmax
     [(1, ex_moments\<lparr>intensity := Fin 1, width := Fin 1\<rparr>),
      (2, ex_moments\<lparr>intensity := Fin 1, width := Fin 2\<rparr>)]
   = Inr ([Fin 1, Fin 2], [Fin 1, Fin 1])"
  by (simp add: lookup_def energy_features_def ex_env_width_def ex_env_def ex_pair_def
      ex_one_tel_def ex_no_geometry_def ex_event_def ex_moments_def)

lemma ex_pair_score:
  "estimate_score ex_env_width ex_pair reco_e hmax
     [(1, ex_moments\<lparr>intensity := Fin 1, width := Fin 1\<rparr>),
      (2, ex_moments\<lparr>intensity := Fin 1, width := Fin 2\<rparr>)]
   = Inr ([np_log10_ieee reco_e, np_log10_ieee reco_e], [Fin 1, Fin 1])"
  by (simp add: lookup_def score_features_def ex_env_width_def ex_env_def ex_pair_def
      ex_one_tel_def ex_no_geometry_def ex_event_def ex_moments_def)

text \<open>
  C5: for every event with a dictionary of telescopes for which a row is written, the energy
  estimate of each telescope is its regressor applied to its own features; the fused energy is
  \<open>np.sum(weight_tel * energy_tel) / sum(weight_tel)\<close> over all telescopes (for two
  telescopes, the rounded quotient of \<open>w1 * e1 + w2 * e2\<close> by \<open>w1 + w2\<close>), and its
  single-precision conversion is stored as \<open>reco_energy\<close>. The classifier of each telescope
  is applied to a feature vector whose first component is \<open>log10\<close> of that fused energy: the
  same value for every telescope, computed from all the energy estimates before the first
  feature vector of the classifier is built, and not the estimate of the telescope.
\<close>

theorem classifier_uses_fused_energy:
  assumes "hillas_dict p = Some hdict" and "row_of E p = Inr r"
  shows "\<exists>fit energy_tel weight_tel score_tel.
           reco_result p = Some fit
           \<and> estimate_energy E p (fit_h_max fit) hdict = Inr (energy_tel, weight_tel)
           \<and> weight_tel = map (\<lambda>(t, m). intensity m) hdict
           \<and> length energy_tel = length hdict
           \<and> (\<forall>i < length hdict. \<exists>cam_id model impact.
                 tel_cam_id (event p) (fst (hdict ! i)) = Some cam_id
                 \<and> regressor_model_dict E cam_id = Some model
                 \<and> impact_dict p (fst (hdict ! i)) = Some impact
                 \<and> energy_tel ! i
                     = model (energy_features E (snd (hdict ! i)) impact (fit_h_max fit)))
           \<and> fusion weight_tel energy_tel
               = fdiv (np_sum (map2 fmul weight_tel energy_tel)) (py_sum weight_tel)
           \<and> (\<forall>w1 w2 e1 e2. fusion [w1, w2] [e1, e2]
                 = fdiv (fadd (Fin 0) (fadd (fadd (Fin 0) (fmul w1 e1)) (fmul w2 e2)))
                        (fadd (fadd (Fin 0) w1) w2))
           \<and> reco_energy r = to_float32 (fusion weight_tel energy_tel)
           \<and> estimate_score E p (fusion weight_tel energy_tel) (fit_h_max fit) hdict
               = Inr (score_tel, weight_tel)
           \<and> score r = to_float32 (fusion weight_tel score_tel)
           \<and> (\<forall>i < length hdict. \<exists>cam_id model.
                 tel_cam_id (event p) (fst (hdict ! i)) = Some cam_id
                 \<and> classifier_model_dict E cam_id = Some model
                 \<and> score_tel ! i = model (score_features E (fusion weight_tel energy_tel)
                                            (snd (hdict ! i)) (fit_h_max fit))
                 \<and> score_features E (fusion weight_tel energy_tel) (snd (hdict ! i))
                          (fit_h_max fit)
                     = [np_log10 E (fusion weight_tel energy_tel), width (snd (hdict ! i)),
                        length_m (snd (hdict ! i)), skewness (snd (hdict ! i)),
                        kurtosis (snd (hdict ! i)), fit_h_max fit])"
proof -
  from assms(2) obtain fit where fit: "reco_result p = Some fit"
    by (cases "reco_result p") (auto simp: row_of_def reconstruct_def)
  let ?hmax = "fit_h_max fit"
  from assms fit obtain es ws where e: "estimate_energy E p ?hmax hdict = Inr (es, ws)"
    by (cases "estimate_energy E p ?hmax hdict") (auto simp: row_of_def reconstruct_def)
  with assms fit obtain ss ws2 where
    s: "estimate_score E p (fusion ws es) ?hmax hdict = Inr (ss, ws2)"
    by (cases "estimate_score E p (fusion ws es) ?hmax hdict")
       (auto simp: row_of_def reconstruct_def)
  have w: "ws2 = ws"
    using estimate_energy_weights [OF e] estimate_score_weights [OF s] by simp
  have r: "reco_energy r = to_float32 (fusion ws es)" "score r = to_float32 (fusion ws ss)"
    using assms e s w fit
    by (auto simp: row_of_def reconstruct_def save_basic_def fill_success_def)
  show ?thesis
    apply (rule exI [of _ fit])
    apply (rule exI [of _ es])
    apply (rule exI [of _ ws])
    apply (rule exI [of _ ss])
    apply (intro conjI)
    subgoal by (rule fit)
    subgoal by (rule e)
    subgoal using estimate_energy_weights [OF e] by simp
    subgoal using estimate_energy_weights [OF e] by simp
    subgoal by (rule estimate_energy_values [OF e])
    subgoal by (simp add: fusion_def)
    subgoal by (simp add: fusion_two)
    subgoal by (rule r(1))
    subgoal using s w by simp
    subgoal by (rule r(2))
    subgoal using estimate_score_values [OF s] by (simp add: score_features_def)
    done
qed

text \<open>
  Two telescopes of equal intensity with the estimates 1 and 2: the fused energy is 1.5, and
  both classifier calls receive \<open>log10\<close> of 1.5, not of 1 or of 2.
\<close>

theorem classifier_uses_fused_energy_witness:
  "hillas_dict ex_pair = Some [(1, ex_moments\<lparr>intensity := Fin 1, width := Fin 1\<rparr>),
                               (2, ex_moments\<lparr>intensity := Fin 1, width := Fin 2\<rparr>)]
   \<and> \<not> isl (row_of ex_env_width ex_pair)
   \<and> reco_result ex_pair = Some ex_fit
   \<and> estimate_energy ex_env_width ex_pair (fit_h_max ex_fit)
        [(1, ex_moments\<lparr>intensity := Fin 1, width := Fin 1\<rparr>),
         (2, ex_moments\<lparr>intensity := Fin 1, width := Fin 2\<rparr>)]
       = Inr ([Fin 1, Fin 2], [Fin 1, Fin 1])
   \<and> fusion [Fin 1, Fin 1] [Fin 1, Fin 2] = Fin (3 / 2)
   \<and> reco_energy (projr (row_of ex_env_width ex_pair)) = to_float32 (Fin (3 / 2))
   \<and> estimate_score ex_env_width ex_pair (Fin (3 / 2)) (fit_h_max ex_fit)
        [(1, ex_moments\<lparr>intensity := Fin 1, width := Fin 1\<rparr>),
         (2, ex_moments\<lparr>intensity := Fin 1, width := Fin 2\<rparr>)]
       = Inr ([np_log10_ieee (Fin (3 / 2)), np_log10_ieee (Fin (3 / 2))], [Fin 1, Fin 1])
   \<and> hd (score_features ex_env_width (Fin (3 / 2)) (ex_moments\<lparr>intensity := Fin 1, width := Fin 2\<rparr>)
            (fit_h_max ex_fit))
       = np_log10_ieee (Fin (3 / 2))
   \<and> Fin (3 / 2) \<noteq> Fin 1 \<and> Fin (3 / 2) \<noteq> Fin 2"
proof -
  define hdl where "hdl = [(1::nat, ex_moments\<lparr>intensity := Fin 1, width := Fin 1\<rparr>),
                           (2, ex_moments\<lparr>intensity := Fin 1, width := Fin 2\<rparr>)]"
  have h: "hillas_dict ex_pair = Some hdl"
    by (simp add: ex_pair_def hdl_def)
  have f: "reco_result ex_pair = Some ex_fit"
    by (simp add: ex_pair_def ex_one_tel_def ex_no_geometry_def)
  have en: "estimate_energy ex_env_width ex_pair hmax hdl = Inr ([Fin 1, Fin 2], [Fin 1, Fin 1])"
    for hmax
    unfolding hdl_def by (rule ex_pair_energy)
  have sc: "estimate_score ex_env_width ex_pair reco_e hmax hdl
              = Inr ([np_log10_ieee reco_e, np_log10_ieee reco_e], [Fin 1, Fin 1])"
    for reco_e hmax
    unfolding hdl_def by (rule ex_pair_score)
  have "\<exists>r. row_of ex_env_width ex_pair = Inr r"
    by (simp add: row_of_def reconstruct_def h f en sc Let_def)
  then obtain r where r: "row_of ex_env_width ex_pair = Inr r" ..
  from classifier_uses_fused_energy [OF h r] obtain fit :: shower_fit and et wt where
      a: "estimate_energy ex_env_width ex_pair (fit_h_max fit) hdl = Inr (et, wt)"
         "reco_energy r = to_float32 (fusion wt et)"
    by blast
  from a(1) en [of "fit_h_max fit"] have "et = [Fin 1, Fin 2]" "wt = [Fin 1, Fin 1]"
    by simp_all
  with a(2) have re: "reco_energy r = to_float32 (Fin (3 / 2))"
    by (simp only: ex_fusion_pair)
  have lg: "np_log10 ex_env_width = np_log10_ieee"
    by (simp add: ex_env_width_def ex_env_def)
  have feat: "hd (score_features ex_env_width (Fin (3 / 2))
                    (ex_moments\<lparr>intensity := Fin 1, width := Fin 2\<rparr>) (fit_h_max ex_fit))
                = np_log10_ieee (Fin (3 / 2))"
    by (simp add: score_features_def lg)
  have ne: "Fin (3 / 2) \<noteq> Fin 1" "Fin (3 / 2) \<noteq> Fin 2"
    by simp_all
  show ?thesis
    unfolding hdl_def [symmetric]
    using h f r en [of "fit_h_max ex_fit"] sc [of "Fin (3 / 2)" "fit_h_max ex_fit"]
      ex_fusion_pair re feat ne
    by simp
qed

end
